theory Spec2Isabelle
  imports Complex_Main
begin

section \<open>Numbers and strings of the source language\<close>

text \<open>
  The module \<^verbatim>\<open>src/utils/dnd-combat-math.ts\<close> computes on JavaScript numbers. They are
  modelled by the reals (integers by \<open>int\<close>), so rounding of IEEE doubles is not part of
  the model. The three non-finite results the code can produce from finite operands
  (a division by zero, a missing optional field) are kept as values of \<open>number\<close>.

  The model is thus the program in exact arithmetic. It agrees with the program as long
  as every intermediate value is a double computed without error; it shows neither an
  overflow to \<^verbatim>\<open>Infinity\<close>, nor an underflow to 0, nor the loss of digits of an integer
  above \<open>2 ^ 53\<close>. The analytic engine reaches all three at ordinary inputs (binomial
  coefficients and powers of the hit probability); this is said at its definitions and
  at its properties.
\<close>

datatype number = Finite real | Infinity | NegInfinity | NaN

text \<open>The quotient \<^verbatim>\<open>a / b\<close> of two finite numbers, with the cases of a zero divisor.\<close>

definition divide_number :: "real \<Rightarrow> real \<Rightarrow> number" where
  "divide_number a b =
     (if b \<noteq> 0 then Finite (a / b)
      else if 0 < a then Infinity
      else if a < 0 then NegInfinity
      else NaN)"

text \<open>
  A string is a list of code units; \<open>char\<close> covers the code units below 256. The class
  \<^verbatim>\<open>\s\<close> of a regular expression and \<^verbatim>\<open>String.prototype.trim\<close> use the same set of
  white space and line terminators: below 256 these are TAB, LF, VT, FF, CR, SPACE and
  NBSP. The class \<^verbatim>\<open>\d\<close> is the ten ASCII digits.
\<close>

definition isWhiteSpace :: "char \<Rightarrow> bool" where
  "isWhiteSpace c =
     (c \<in> set [CHR 0x09, CHR 0x0A, CHR 0x0B, CHR 0x0C, CHR 0x0D, CHR 0x20, CHR 0xA0])"

definition isDigit :: "char \<Rightarrow> bool" where
  "isDigit c = (c \<in> set ''0123456789'')"

definition trim :: "string \<Rightarrow> string" where
  "trim s = rev (dropWhile isWhiteSpace (rev (dropWhile isWhiteSpace s)))"

definition digitValue :: "char \<Rightarrow> int" where
  "digitValue c = int (of_char c) - 48"

text \<open>\<^verbatim>\<open>parseInt\<close> on a string of decimal digits (the only strings the parser gives it).\<close>

definition parseInt :: "string \<Rightarrow> int" where
  "parseInt ds = foldl (\<lambda>a c. 10 * a + digitValue c) 0 ds"

section \<open>The damage parser\<close>

subsection \<open>The two regular expressions\<close>

text \<open>
  \<^verbatim>\<open>diceRegex  = /^\s*(\d+)\s*[dD]\s*(\d+)\s*(?:([+-])\s*(\d+))?\s*$/\<close>
  \<^verbatim>\<open>fixedRegex = /^\s*(\d+)\s*$/\<close>

  Each piece of a pattern is a function from the rest of the input to the rest after the
  piece (and the captured text), \<open>None\<close> when the piece does not match. The classes
  \<^verbatim>\<open>\s\<close>, \<^verbatim>\<open>\d\<close>, \<^verbatim>\<open>[dD]\<close> and \<^verbatim>\<open>[+-]\<close> are pairwise disjoint, so the greedy match of
  \<^verbatim>\<open>\s*\<close> and \<^verbatim>\<open>\d+\<close> is the only one that can be continued; the optional group is tried
  first and given up when the rest of the pattern fails after it.
\<close>

definition skipSpaces :: "string \<Rightarrow> string" where
  "skipSpaces s = dropWhile isWhiteSpace s"

definition digits1 :: "string \<Rightarrow> (string \<times> string) option" where
  "digits1 s =
     (if takeWhile isDigit s = [] then None
      else Some (takeWhile isDigit s, dropWhile isDigit s))"

fun letterD :: "string \<Rightarrow> string option" where
  "letterD [] = None"
| "letterD (c # cs) = (if c = CHR ''d'' \<or> c = CHR ''D'' then Some cs else None)"

fun signChar :: "string \<Rightarrow> (string \<times> string) option" where
  "signChar [] = None"
| "signChar (c # cs) = (if c = CHR ''+'' \<or> c = CHR ''-'' then Some ([c], cs) else None)"

text \<open>The end of the pattern, \<^verbatim>\<open>\s*$\<close>.\<close>

definition atEnd :: "string \<Rightarrow> bool" where
  "atEnd s = (skipSpaces s = [])"

text \<open>The group \<^verbatim>\<open>([+-])\s*(\d+)\<close> followed by the end of the pattern.\<close>

definition modifierGroup :: "string \<Rightarrow> (string \<times> string) option" where
  "modifierGroup s =
     (case signChar s of
        None \<Rightarrow> None
      | Some (g3, s1) \<Rightarrow>
          (case digits1 (skipSpaces s1) of
             None \<Rightarrow> None
           | Some (g4, s2) \<Rightarrow> if atEnd s2 then Some (g3, g4) else None))"

text \<open>
  A match of \<^verbatim>\<open>fixedRegex\<close> is its group 1; a match of \<^verbatim>\<open>diceRegex\<close> is its groups 1 to
  4, where groups 3 and 4 are \<^verbatim>\<open>undefined\<close> (\<open>None\<close>) when the optional group took no part.
\<close>

definition fixedRegex :: "string \<Rightarrow> string option" where
  "fixedRegex s =
     (case digits1 (skipSpaces s) of
        None \<Rightarrow> None
      | Some (g1, s1) \<Rightarrow> if atEnd s1 then Some g1 else None)"

definition diceRegex :: "string \<Rightarrow> (string \<times> string \<times> string option \<times> string option) option" where
  "diceRegex s =
     (case digits1 (skipSpaces s) of
        None \<Rightarrow> None
      | Some (g1, s1) \<Rightarrow>
          (case letterD (skipSpaces s1) of
             None \<Rightarrow> None
           | Some s2 \<Rightarrow>
               (case digits1 (skipSpaces s2) of
                  None \<Rightarrow> None
                | Some (g2, s3) \<Rightarrow>
                    (case modifierGroup (skipSpaces s3) of
                       Some (g3, g4) \<Rightarrow> Some (g1, g2, Some g3, Some g4)
                     | None \<Rightarrow>
                         if atEnd s3 then Some (g1, g2, None, None) else None))))"

subsection \<open>Validation and parsing\<close>

text \<open>\<^verbatim>\<open>isValidDamageInput\<close>; its argument is a string, so the \<^verbatim>\<open>typeof\<close> guard passes.\<close>

definition isValidDamageInput :: "string \<Rightarrow> bool" where
  "isValidDamageInput damage =
     (let cleaned = trim damage
      in diceRegex cleaned \<noteq> None \<or> fixedRegex cleaned \<noteq> None)"

text \<open>
  \<^verbatim>\<open>DamageResult\<close>: the optional fields are \<open>option\<close>s; the fields \<^verbatim>\<open>min\<close> and \<^verbatim>\<open>max\<close> are
  \<open>min'\<close> and \<open>max'\<close> here.
\<close>

record DamageResult =
  numDice :: "int option"
  diceSides :: "int option"
  modifier :: "int option"
  fixedDamage :: "int option"
  average :: real
  min' :: int
  max' :: int
  criticalAverage :: "real option"
  criticalMin :: "int option"
  criticalMax :: "int option"

definition fallbackDamage :: DamageResult where
  "fallbackDamage =
     \<lparr>numDice = None, diceSides = None, modifier = None, fixedDamage = Some 1,
      average = 1, min' = 1, max' = 1,
      criticalAverage = Some 2, criticalMin = Some 2, criticalMax = Some 2\<rparr>"

definition parseDamageInput :: "string \<Rightarrow> DamageResult" where
  "parseDamageInput damageInput =
     (let cleaned = trim damageInput in
      case fixedRegex cleaned of
        Some g1 \<Rightarrow>
          (let damage = parseInt g1 in
           \<lparr>numDice = None, diceSides = None, modifier = None, fixedDamage = Some damage,
            average = of_int damage, min' = damage, max' = damage,
            criticalAverage = Some (of_int (damage * 2)),
            criticalMin = Some (damage * 2), criticalMax = Some (damage * 2)\<rparr>)
      | None \<Rightarrow>
          (case diceRegex cleaned of
             Some (g1, g2, g3, g4) \<Rightarrow>
               (let numDice = parseInt g1;
                    sides = parseInt g2;
                    operator = (case g3 of None \<Rightarrow> ''+'' | Some x \<Rightarrow> if x = [] then ''+'' else x);
                    modifier = (case g4 of None \<Rightarrow> 0 | Some x \<Rightarrow> if x = [] then 0 else parseInt x);
                    actualModifier = (if operator = ''-'' then - modifier else modifier);
                    min = numDice + actualModifier;
                    max = numDice * sides + actualModifier;
                    average = of_int (numDice * (sides + 1)) / 2 + of_int actualModifier;
                    criticalMin = numDice * 2 + actualModifier;
                    criticalMax = numDice * 2 * sides + actualModifier;
                    criticalAverage = of_int (numDice * 2 * (sides + 1)) / 2 + of_int actualModifier
                in
                \<lparr>numDice = Some numDice, diceSides = Some sides, modifier = Some actualModifier,
                 fixedDamage = None,
                 average = average, min' = ord_class.max 0 min, max' = ord_class.max 0 max,
                 criticalAverage = Some (ord_class.max 0 criticalAverage),
                 criticalMin = Some (ord_class.max 0 criticalMin),
                 criticalMax = Some (ord_class.max 0 criticalMax)\<rparr>)
           | None \<Rightarrow> fallbackDamage))"

section \<open>The hit probability\<close>

text \<open>\<^verbatim>\<open>d20HitProb(attackModifier, armorClass, enforceNatRules)\<close>.\<close>

definition d20HitProb :: "real \<Rightarrow> real \<Rightarrow> bool \<Rightarrow> real" where
  "d20HitProb attackModifier armorClass enforceNatRules =
     (let raw = (21 + attackModifier - armorClass) / 20;
          p = max 0 (min 1 raw)
      in if enforceNatRules then max (1 / 20) (min (19 / 20) p) else p)"

text \<open>The spec's \<open>clamp(x, lo, hi)\<close>: \<open>x\<close> brought into the interval from \<open>lo\<close> to \<open>hi\<close>.\<close>

definition clamp :: "real \<Rightarrow> real \<Rightarrow> real \<Rightarrow> real" where
  "clamp x lo hi = (if x < lo then lo else if hi < x then hi else x)"

section \<open>The analytic engine\<close>

subsection \<open>Binomial coefficients\<close>

text \<open>
  The loop of \<^verbatim>\<open>gcd\<close>, \<^verbatim>\<open>while (b) { t = b; b = a % b; a = t }\<close>, on the absolute values
  of the arguments: on non-negative integers \<^verbatim>\<open>%\<close> is \<open>mod\<close>.
\<close>

function gcd_loop :: "int \<Rightarrow> int \<Rightarrow> int" where
  "gcd_loop a b = (if b \<noteq> 0 then gcd_loop b (a mod b) else a)"
  by pat_completeness auto
termination
  by (relation "measure (\<lambda>(a, b). nat \<bar>b\<bar>)") (auto simp: abs_mod_less)

declare gcd_loop.simps [simp del]

text \<open>\<^verbatim>\<open>gcd(a, b)\<close>; the result \<^verbatim>\<open>a || 1\<close> is 1 when the loop ends with 0.\<close>

definition gcd' :: "int \<Rightarrow> int \<Rightarrow> int" where
  "gcd' a b = (let r = gcd_loop \<bar>a\<bar> \<bar>b\<bar> in if r \<noteq> 0 then r else 1)"

text \<open>
  The loop of \<^verbatim>\<open>comb\<close>, \<^verbatim>\<open>for (let i = 1; i <= k; i++)\<close>, on the pair \<^verbatim>\<open>(num, den)\<close>. The
  divisions \<^verbatim>\<open>num /= g\<close> and \<^verbatim>\<open>den /= g\<close> are exact, since \<open>g\<close> divides both
  (lemma \<open>gcd'_dvd\<close>), so they are \<open>div\<close> on integers.

  This is the loop in exact arithmetic, on unbounded integers. In the program \<^verbatim>\<open>num\<close> and
  \<^verbatim>\<open>den\<close> are doubles: a product above \<open>2 ^ 53\<close> is rounded, after which the greatest
  common divisor no longer cancels the factors of \<^verbatim>\<open>den\<close>, so \<^verbatim>\<open>num\<close> carries an
  uncancelled factor of about \<open>10 ^ 15\<close> and overflows to \<^verbatim>\<open>Infinity\<close> for coefficients
  that are themselves in the range of a double (\<^verbatim>\<open>comb(970, 460)\<close>, about \<open>7 * 10 ^ 289\<close>,
  is \<^verbatim>\<open>Infinity\<close>; \<^verbatim>\<open>comb(60, 30)\<close> is off by 16). The model does not show this.
\<close>

function comb_loop :: "int \<Rightarrow> int \<Rightarrow> int \<Rightarrow> int \<Rightarrow> int \<Rightarrow> int \<times> int" where
  "comb_loop n k i num den =
     (if i \<le> k then
        (let num1 = num * (n - (k - i));
             den1 = den * i;
             g = gcd' num1 den1
         in comb_loop n k (i + 1) (num1 div g) (den1 div g))
      else (num, den))"
  by pat_completeness auto
termination
  by (relation "measure (\<lambda>(n, k, i, num, den). nat (k + 1 - i))") auto

declare comb_loop.simps [simp del]

text \<open>\<^verbatim>\<open>comb(n, k)\<close> on integers; the result is the quotient \<^verbatim>\<open>num / den\<close>.\<close>

definition comb :: "int \<Rightarrow> int \<Rightarrow> real" where
  "comb n k =
     (if k < 0 \<or> k > n then 0
      else (let k1 = min k (n - k);
                (num, den) = comb_loop n k1 1 1 1
            in real_of_int num / real_of_int den))"

subsection \<open>The negative binomial law\<close>

text \<open>
  \<^verbatim>\<open>negBinomPMF(n, r, p)\<close> for integers \<open>n\<close> and \<open>r\<close>. \<^verbatim>\<open>Math.pow\<close> with an integer exponent
  is \<open>powi\<close>; the engine calls it with exponents that are not negative.

  The product is that of exact reals. In the program each factor is a double:
  \<^verbatim>\<open>Math.pow(p, r)\<close> is 0 when \<open>p ^ r\<close> is below the least double, and \<^verbatim>\<open>comb\<close> can be
  \<^verbatim>\<open>Infinity\<close>, so the program's product can be 0, \<^verbatim>\<open>Infinity\<close> or \<^verbatim>\<open>NaN\<close> where the
  model gives the probability of the negative binomial law.
\<close>

definition negBinomPMF :: "int \<Rightarrow> int \<Rightarrow> real \<Rightarrow> real" where
  "negBinomPMF n r p =
     (if n < r then 0
      else comb (n - 1) (r - 1) * (p powi r) * ((1 - p) powi (n - r)))"

text \<open>\<^verbatim>\<open>normalPdf(z)\<close>.\<close>

definition normalPdf :: "real \<Rightarrow> real" where
  "normalPdf z = exp (- 0.5 * z * z) / sqrt (2 * pi)"

subsection \<open>Points of a distribution\<close>

text \<open>
  \<^verbatim>\<open>TTKPoint\<close>. The probabilities of a PMF are finite and are reals; the points of the
  normal approximation can hold \<^verbatim>\<open>NaN\<close> and are \<open>number TTKPoint\<close>.
\<close>

record 'p TTKPoint =
  attacks :: int
  prob :: 'p

subsection \<open>The distribution of the number of attacks\<close>

definition maxTailProb :: real where
  "maxTailProb = 1 / 1000000"

definition approxWidth :: real where
  "approxWidth = 4"

text \<open>
  The loop \<^verbatim>\<open>while (tail > maxTailProb && n - hitsNeeded < 1000)\<close> of
  \<^verbatim>\<open>timeToKillDistribution\<close>, on \<^verbatim>\<open>(n, tail, pmf)\<close>.
\<close>

function pmf_loop :: "int \<Rightarrow> real \<Rightarrow> int \<Rightarrow> real \<Rightarrow> real TTKPoint list \<Rightarrow> real TTKPoint list" where
  "pmf_loop hitsNeeded hitProbability n tail pmf =
     (if tail > maxTailProb \<and> n - hitsNeeded < 1000 then
        (let prob = negBinomPMF n hitsNeeded hitProbability
         in pmf_loop hitsNeeded hitProbability (n + 1) (tail - prob)
              (pmf @ [\<lparr>attacks = n, prob = prob\<rparr>]))
      else pmf)"
  by pat_completeness auto
termination
  by (relation "measure (\<lambda>(h, p, n, tail, pmf). nat (1000 - (n - h)))") auto

declare pmf_loop.simps [simp del]

text \<open>
  The normal approximation: the points \<open>k\<close> from \<open>nMin\<close> to \<open>nMax\<close> with the density
  \<^verbatim>\<open>normalPdf((k - mean) / stdev) / stdev\<close>, rescaled when their sum is positive. With a
  standard deviation of 0 every quotient is \<^verbatim>\<open>NaN\<close>, the sum is \<^verbatim>\<open>NaN\<close> and nothing is
  rescaled.
\<close>

definition normalApproxPoints ::
  "real TTKPoint list \<Rightarrow> real \<Rightarrow> real \<Rightarrow> int \<Rightarrow> int \<Rightarrow> number TTKPoint list" where
  "normalApproxPoints pmf mean stdev nMin nMax =
     (if stdev = 0 then map (\<lambda>k. \<lparr>attacks = k, prob = NaN\<rparr>) [nMin..nMax]
      else
        (let pts = map (\<lambda>k. (k, normalPdf ((of_int k - mean) / stdev) / stdev)) [nMin..nMax];
             approxSum = foldl (\<lambda>s x. s + snd x) 0 pts
         in if approxSum > 0 then
              (let exactWindowSum =
                     foldl (\<lambda>s x. s + prob x) 0
                       (filter (\<lambda>x. attacks x \<ge> nMin \<and> attacks x \<le> nMax) pmf);
                   target = (if exactWindowSum > 0 then exactWindowSum else 1)
               in map (\<lambda>(k, q). \<lparr>attacks = k, prob = Finite (q * (target / approxSum))\<rparr>) pts)
            else map (\<lambda>(k, q). \<lparr>attacks = k, prob = Finite q\<rparr>) pts))"

text \<open>\<^verbatim>\<open>StatisticalResults\<close>.\<close>

record StatisticalResults =
  hitProbability :: real
  hitsNeeded :: number
  pmf :: "real TTKPoint list"
  mean :: number
  variance :: number
  stdev :: number
  normalApprox :: "number TTKPoint list"
  roundsDistribution :: "real list"

text \<open>\<^verbatim>\<open>throw new Error(message)\<close>.\<close>

datatype error = Error string

text \<open>\<^verbatim>\<open>timeToKillDistribution\<close>.\<close>

definition timeToKillDistribution ::
  "real \<Rightarrow> real \<Rightarrow> real \<Rightarrow> real \<Rightarrow> bool \<Rightarrow> error + StatisticalResults" where
  "timeToKillDistribution attackModifier armorClass damage health useCriticalMechanics =
     (if damage \<le> 0 then Inl (Error ''damage must be > 0'')
      else if health \<le> 0 then Inl (Error ''health must be > 0'')
      else
        (let hitProbability = d20HitProb attackModifier armorClass useCriticalMechanics in
         if hitProbability = 0 then
           Inr \<lparr>hitProbability = hitProbability, hitsNeeded = Infinity, pmf = [],
                mean = Infinity, variance = Infinity, stdev = Infinity,
                normalApprox = [], roundsDistribution = []\<rparr>
         else
           (let hitsNeeded = \<lceil>health / damage\<rceil>;
                pmf = pmf_loop hitsNeeded hitProbability hitsNeeded 1 [];
                mean = of_int hitsNeeded / hitProbability;
                variance = (of_int hitsNeeded * (1 - hitProbability))
                             / (hitProbability * hitProbability);
                stdev = sqrt variance;
                nMin = max hitsNeeded \<lfloor>mean - approxWidth * stdev\<rfloor>;
                nMax = max nMin \<lceil>mean + approxWidth * stdev\<rceil>;
                normalApprox = normalApproxPoints pmf mean stdev nMin nMax;
                roundsDistribution = map (\<lambda>point. prob point * 100) pmf
            in Inr \<lparr>hitProbability = hitProbability, hitsNeeded = Finite (of_int hitsNeeded),
                    pmf = pmf, mean = Finite mean, variance = Finite variance,
                    stdev = Finite stdev, normalApprox = normalApprox,
                    roundsDistribution = roundsDistribution\<rparr>)))"

section \<open>The Monte Carlo engine\<close>

subsection \<open>Random numbers and dice\<close>

text \<open>
  \<^verbatim>\<open>Math.random()\<close> is the only effect of the engine. The values it returns, in the order
  of the calls, are a sequence \<open>rnd :: nat \<Rightarrow> real\<close> (each in the interval from 0 to 1, 1
  excluded), and the state is the number \<open>k\<close> of values drawn so far: a function that draws
  takes \<open>k\<close> and returns the new count with its result.
\<close>

type_synonym random = "nat \<Rightarrow> real"

text \<open>\<^verbatim>\<open>rollDie(sides)\<close>.\<close>

definition rollDie :: "random \<Rightarrow> int \<Rightarrow> nat \<Rightarrow> int \<times> nat" where
  "rollDie rnd sides k = (\<lfloor>rnd k * of_int sides\<rfloor> + 1, Suc k)"

text \<open>
  The loop \<^verbatim>\<open>for (let i = 0; i < diceToRoll; i++) total += rollDie(damage.diceSides)\<close>; the
  third argument is the number of dice still to roll.
\<close>

fun rollDice :: "random \<Rightarrow> int \<Rightarrow> nat \<Rightarrow> int \<Rightarrow> nat \<Rightarrow> int \<times> nat" where
  "rollDice rnd sides 0 total' k = (total', k)"
| "rollDice rnd sides (Suc n) total' k =
     (let (d, k1) = rollDie rnd sides k in rollDice rnd sides n (total' + d) k1)"

text \<open>
  \<^verbatim>\<open>rollDamage(damage, isCritical)\<close>. The test \<^verbatim>\<open>damage.numDice && damage.diceSides\<close> holds
  when both fields are present and not 0; \<^verbatim>\<open>damage.modifier || 0\<close> is the modifier, 0 when
  it is absent.
\<close>

definition rollDamage :: "random \<Rightarrow> DamageResult \<Rightarrow> bool \<Rightarrow> nat \<Rightarrow> int \<times> nat" where
  "rollDamage rnd damage isCritical k =
     (case fixedDamage damage of
        Some fixed \<Rightarrow> (if isCritical then fixed * 2 else fixed, k)
      | None \<Rightarrow>
          (case (numDice damage, diceSides damage) of
             (Some n, Some sides) \<Rightarrow>
               if n \<noteq> 0 \<and> sides \<noteq> 0 then
                 (let diceToRoll = (if isCritical then n * 2 else n);
                      (total, k1) = rollDice rnd sides (nat diceToRoll) 0 k
                  in (total + (case modifier damage of Some m \<Rightarrow> m | None \<Rightarrow> 0), k1))
               else (1, k)
           | _ \<Rightarrow> (1, k)))"

subsection \<open>One trial\<close>

definition numSimulations :: nat where
  "numSimulations = 100000"

definition maxAttacks :: nat where
  "maxAttacks = 200"

text \<open>
  The body of the loop of a trial after \<^verbatim>\<open>attacks++\<close>: the attack roll, the decision
  \<^verbatim>\<open>hits\<close> and \<^verbatim>\<open>isCritical\<close>, and the damage. It returns the remaining health and the
  count of random values drawn.
\<close>

definition attack ::
  "random \<Rightarrow> real \<Rightarrow> real \<Rightarrow> DamageResult \<Rightarrow> bool \<Rightarrow> real \<Rightarrow> nat \<Rightarrow> real \<times> nat" where
  "attack rnd attackModifier armorClass damage useCriticalMechanics remainingHealth k =
     (let d20Roll = \<lfloor>rnd k * 20\<rfloor> + 1;
          attackTotal = of_int d20Roll + attackModifier;
          (hits, isCritical) =
            (if useCriticalMechanics then
               (if d20Roll = 1 then (False, False)
                else if d20Roll = 20 then (True, True)
                else (attackTotal \<ge> armorClass, False))
             else (attackTotal \<ge> armorClass, False))
      in if hits then
           (let (damageDealt, k1) = rollDamage rnd damage isCritical (Suc k)
            in (remainingHealth - of_int damageDealt, k1))
         else (remainingHealth, Suc k))"

text \<open>
  The loop \<^verbatim>\<open>while (remainingHealth > 0 && attacks < maxAttacks)\<close> of a trial, on
  \<^verbatim>\<open>(remainingHealth, attacks)\<close> and the count of random values drawn.
\<close>

function trial_loop ::
  "random \<Rightarrow> real \<Rightarrow> real \<Rightarrow> DamageResult \<Rightarrow> bool \<Rightarrow> real \<Rightarrow> nat \<Rightarrow> nat \<Rightarrow> real \<times> nat \<times> nat" where
  "trial_loop rnd attackModifier armorClass damage useCriticalMechanics remainingHealth attacks' k =
     (if remainingHealth > 0 \<and> attacks' < maxAttacks then
        (let (remainingHealth1, k1) =
               attack rnd attackModifier armorClass damage useCriticalMechanics remainingHealth k
         in trial_loop rnd attackModifier armorClass damage useCriticalMechanics
              remainingHealth1 (attacks' + 1) k1)
      else (remainingHealth, attacks', k))"
  by pat_completeness auto
termination
  by (relation "measure (\<lambda>(rnd, am, ac, d, c, h, a, k). maxAttacks - a)") auto

declare trial_loop.simps [simp del]

text \<open>
  The loop \<^verbatim>\<open>for (let sim = 0; sim < numSimulations; sim++)\<close> on \<^verbatim>\<open>attackCounts\<close>; the
  argument \<open>n\<close> is the number of simulations still to run. A trial is counted when it
  ends with \<^verbatim>\<open>attacks < maxAttacks\<close>.
\<close>

fun simulations ::
  "random \<Rightarrow> real \<Rightarrow> real \<Rightarrow> DamageResult \<Rightarrow> real \<Rightarrow> bool \<Rightarrow> nat \<Rightarrow> nat list \<Rightarrow> nat \<Rightarrow> nat list \<times> nat" where
  "simulations rnd attackModifier armorClass damage health useCriticalMechanics 0 attackCounts k =
     (attackCounts, k)"
| "simulations rnd attackModifier armorClass damage health useCriticalMechanics (Suc n) attackCounts k =
     (let (remainingHealth, attacks', k1) =
            trial_loop rnd attackModifier armorClass damage useCriticalMechanics health 0 k;
          attackCounts1 =
            (if attacks' < maxAttacks
             then attackCounts[attacks' := attackCounts ! attacks' + 1]
             else attackCounts)
      in simulations rnd attackModifier armorClass damage health useCriticalMechanics n
           attackCounts1 k1)"

subsection \<open>From the counts to the distribution\<close>

text \<open>
  The first loop \<^verbatim>\<open>for (let i = 1; i <= maxAttacks; i++)\<close>: \<^verbatim>\<open>totalCount\<close>, the sum of the
  positive counts.
\<close>

definition totalCountOf :: "nat list \<Rightarrow> nat" where
  "totalCountOf attackCounts =
     foldl (\<lambda>totalCount i.
              if attackCounts ! i > 0 then totalCount + attackCounts ! i else totalCount)
       0 [1..<Suc maxAttacks]"

text \<open>
  The second loop: the points \<^verbatim>\<open>{ attacks: i, prob: attackCounts[i] / totalCount }\<close> of
  the positive counts, with the sums \<^verbatim>\<open>mean\<close> and \<^verbatim>\<open>variance\<close>.
\<close>

definition pmfOf :: "nat list \<Rightarrow> nat \<Rightarrow> real TTKPoint list \<times> real \<times> real" where
  "pmfOf attackCounts totalCount =
     foldl (\<lambda>(pmf, mean, variance) i.
              if attackCounts ! i > 0 then
                (let prob = real (attackCounts ! i) / real totalCount
                 in (pmf @ [\<lparr>attacks = int i, prob = prob\<rparr>],
                     mean + real i * prob,
                     variance + real i * real i * prob))
              else (pmf, mean, variance))
       ([], 0, 0) [1..<Suc maxAttacks]"

text \<open>The loop of the mode, on \<^verbatim>\<open>(mode, maxProb)\<close>.\<close>

definition modeOf :: "real TTKPoint list \<Rightarrow> int \<times> real" where
  "modeOf points =
     foldl (\<lambda>(mode, maxProb) point.
              if prob point > maxProb then (attacks point, prob point) else (mode, maxProb))
       (1, 0) points"

text \<open>
  The loop of the median and the percentiles, on
  \<^verbatim>\<open>(cumulativeProb, median, p25, p75, p90, p95)\<close>.
\<close>

definition percentileStep ::
  "real \<times> int \<times> int \<times> int \<times> int \<times> int \<Rightarrow> real TTKPoint
     \<Rightarrow> real \<times> int \<times> int \<times> int \<times> int \<times> int" where
  "percentileStep state point =
     (case state of (cumulativeProb, median, p25, p75, p90, p95) \<Rightarrow>
        (let cumulativeProb1 = cumulativeProb + prob point
         in (cumulativeProb1,
             if median = 1 \<and> cumulativeProb1 \<ge> 0.5 then attacks point else median,
             if p25 = 1 \<and> cumulativeProb1 \<ge> 0.25 then attacks point else p25,
             if p75 = 1 \<and> cumulativeProb1 \<ge> 0.75 then attacks point else p75,
             if p90 = 1 \<and> cumulativeProb1 \<ge> 0.90 then attacks point else p90,
             if p95 = 1 \<and> cumulativeProb1 \<ge> 0.95 then attacks point else p95)))"

definition percentilesOf :: "real TTKPoint list \<Rightarrow> real \<times> int \<times> int \<times> int \<times> int \<times> int" where
  "percentilesOf points = foldl percentileStep (0, 1, 1, 1, 1, 1) points"

subsection \<open>The result\<close>

text \<open>\<^verbatim>\<open>CombatResults\<close>, with the record of its field \<^verbatim>\<open>percentiles\<close>.\<close>

record Percentiles =
  p25 :: int
  p75 :: int
  p90 :: int
  p95 :: int

record CombatResults = StatisticalResults +
  median :: int
  mode :: int
  percentiles :: Percentiles

text \<open>
  \<^verbatim>\<open>timeToKillWithCriticals\<close>, run on the random sequence \<open>rnd\<close>. The field
  \<^verbatim>\<open>damage.criticalAverage\<close> is read only with critical mechanics; when it is absent the
  estimate of the hits needed is \<^verbatim>\<open>NaN\<close>. \<^verbatim>\<open>Math.sqrt\<close> of a negative number is \<^verbatim>\<open>NaN\<close>.
\<close>

definition timeToKillWithCriticals ::
  "random \<Rightarrow> real \<Rightarrow> real \<Rightarrow> DamageResult \<Rightarrow> real \<Rightarrow> bool \<Rightarrow> error + CombatResults" where
  "timeToKillWithCriticals rnd attackModifier armorClass damage health useCriticalMechanics =
     (if health \<le> 0 then Inl (Error ''health must be > 0'')
      else
        (let attackCounts =
               fst (simulations rnd attackModifier armorClass damage health useCriticalMechanics
                      numSimulations (replicate (maxAttacks + 1) 0) 0);
             totalCount = totalCountOf attackCounts;
             (pmf, mean, variance0) = pmfOf attackCounts totalCount;
             variance = variance0 - mean * mean;
             stdev = (if variance < 0 then NaN else Finite (sqrt variance));
             hitProbability = d20HitProb attackModifier armorClass useCriticalMechanics;
             avgDamagePerHit =
               (if useCriticalMechanics then
                  (case criticalAverage damage of
                     Some c \<Rightarrow> Some (average damage + 0.05 * (c - average damage))
                   | None \<Rightarrow> None)
                else Some (average damage + 0));
             effectiveHitsNeeded =
               (case avgDamagePerHit of Some a \<Rightarrow> divide_number health a | None \<Rightarrow> NaN);
             (mode, maxProb) = modeOf pmf;
             (cumulativeProb, median, p25, p75, p90, p95) = percentilesOf pmf
         in Inr \<lparr>hitProbability = hitProbability, hitsNeeded = effectiveHitsNeeded,
                 pmf = pmf, mean = Finite mean, variance = Finite variance, stdev = stdev,
                 normalApprox = [], roundsDistribution = [],
                 median = median, mode = mode,
                 percentiles = \<lparr>p25 = p25, p75 = p75, p90 = p90, p95 = p95\<rparr>\<rparr>))"

subsection \<open>The trials of a run\<close>

text \<open>
  The attack counts with which the trials of a run end, in the order of the trials: the
  trials that \<open>simulations\<close> runs, without the counting.
\<close>

fun trialAttacks ::
  "random \<Rightarrow> real \<Rightarrow> real \<Rightarrow> DamageResult \<Rightarrow> real \<Rightarrow> bool \<Rightarrow> nat \<Rightarrow> nat \<Rightarrow> nat list" where
  "trialAttacks rnd attackModifier armorClass damage health useCriticalMechanics 0 k = []"
| "trialAttacks rnd attackModifier armorClass damage health useCriticalMechanics (Suc n) k =
     (let (remainingHealth, attacks', k1) =
            trial_loop rnd attackModifier armorClass damage useCriticalMechanics health 0 k
      in attacks' # trialAttacks rnd attackModifier armorClass damage health useCriticalMechanics n k1)"

subsection \<open>Notions used in the proofs\<close>

text \<open>
  One marker of the loop of the percentiles, for a threshold \<open>t\<close>: the step of
  \<open>percentileStep\<close> on the cumulative probability and that marker alone.
\<close>

definition markerStep :: "real \<Rightarrow> real \<times> int \<Rightarrow> real TTKPoint \<Rightarrow> real \<times> int" where
  "markerStep t state point =
     (case state of (cumulativeProb, marker) \<Rightarrow>
        (cumulativeProb + prob point,
         if marker = 1 \<and> cumulativeProb + prob point \<ge> t then attacks point else marker))"

text \<open>
  What two markers with thresholds \<open>t1 \<le> t2\<close> keep during the loop, \<open>last'\<close> being the
  attack count of the last point seen: the first marker is not above the second unless
  the second threshold is not reached yet.
\<close>

definition markerInv :: "real \<Rightarrow> int \<Rightarrow> real \<times> int \<Rightarrow> real \<times> int \<Rightarrow> bool" where
  "markerInv t2 last' s1 s2 =
     (fst s1 = fst s2 \<and> (snd s1 = 1 \<longrightarrow> snd s2 = 1)
      \<and> (snd s1 \<le> snd s2 \<or> (snd s2 = 1 \<and> fst s2 < t2))
      \<and> snd s1 \<le> max 1 last' \<and> snd s2 \<le> max 1 last')"

text \<open>
  The spec's marker of a threshold \<open>t\<close>: the first attack count, in the order of the
  points, at which the cumulative probability reaches or exceeds \<open>t\<close>, and 1 when it is
  never reached. The second argument is the cumulative probability before the points.
\<close>

fun firstReaching :: "real \<Rightarrow> real \<Rightarrow> real TTKPoint list \<Rightarrow> int" where
  "firstReaching t c [] = 1"
| "firstReaching t c (point # points) =
     (if c + prob point \<ge> t then attacks point
      else firstReaching t (c + prob point) points)"

text \<open>
  The retained trials of a run of the engine: the attack counts of the trials that are
  counted, those that end with \<^verbatim>\<open>attacks < maxAttacks\<close>. Their number is the retained
  trial count, and \<open>count_list\<close> gives the frequency of an attack count among them.
\<close>

definition retainedTrials ::
  "random \<Rightarrow> real \<Rightarrow> real \<Rightarrow> DamageResult \<Rightarrow> real \<Rightarrow> bool \<Rightarrow> nat list" where
  "retainedTrials rnd attackModifier armorClass damage health useCriticalMechanics =
     filter (\<lambda>a. a < maxAttacks)
       (trialAttacks rnd attackModifier armorClass damage health useCriticalMechanics
          numSimulations 0)"

text \<open>
  A random sequence for examples: its first \<open>m\<close> values give the attack roll 1 and all
  later values the attack roll 20.
\<close>

definition lateHit :: "nat \<Rightarrow> random" where
  "lateHit m k = (if k < m then 0 else 99 / 100)"

section \<open>Properties of the damage parser\<close>

lemmas parser_defs =
  parseDamageInput_def trim_def isWhiteSpace_def fixedRegex_def diceRegex_def
  skipSpaces_def digits1_def isDigit_def atEnd_def modifierGroup_def parseInt_def
  digitValue_def isValidDamageInput_def fallbackDamage_def

text \<open>
  C7, as the code has it. The string \<^verbatim>\<open>1d8+3\<close> parses to one die of eight sides with
  modifier 3, average 7.5, bounds 4 and 11 and critical bounds 5 and 19. The critical
  average is \<^verbatim>\<open>(numDice * 2 * (sides + 1) / 2) + actualModifier\<close>, the average of two such
  dice plus the modifier, which is 12.
\<close>

theorem parse_1d8_plus_3:
  "parseDamageInput ''1d8+3'' =
     \<lparr>numDice = Some 1, diceSides = Some 8, modifier = Some 3, fixedDamage = None,
      average = 15 / 2, min' = 4, max' = 11,
      criticalAverage = Some 12, criticalMin = Some 5, criticalMax = Some 19\<rparr>"
  by (simp add: parser_defs)

text \<open>
  C7, as the spec states it, with a critical average of 12.5: the nine values do not all
  hold of the parsed record.
\<close>

theorem parse_1d8_plus_3_counterexample:
  "\<not> (numDice (parseDamageInput ''1d8+3'') = Some 1
      \<and> diceSides (parseDamageInput ''1d8+3'') = Some 8
      \<and> modifier (parseDamageInput ''1d8+3'') = Some 3
      \<and> average (parseDamageInput ''1d8+3'') = 75 / 10
      \<and> min' (parseDamageInput ''1d8+3'') = 4
      \<and> max' (parseDamageInput ''1d8+3'') = 11
      \<and> criticalMin (parseDamageInput ''1d8+3'') = Some 5
      \<and> criticalMax (parseDamageInput ''1d8+3'') = Some 19
      \<and> criticalAverage (parseDamageInput ''1d8+3'') = Some (125 / 10))"
  by (simp add: parser_defs)

text \<open>
  C10. A string that \<open>isValidDamageInput\<close> rejects is still parsed: \<open>parseDamageInput\<close>
  is total and returns the fallback record, a fixed damage of 1 with critical values 2.
\<close>

theorem parse_invalid_fallback:
  "\<not> isValidDamageInput s \<Longrightarrow>
     parseDamageInput s =
       \<lparr>numDice = None, diceSides = None, modifier = None, fixedDamage = Some 1,
        average = 1, min' = 1, max' = 1,
        criticalAverage = Some 2, criticalMin = Some 2, criticalMax = Some 2\<rparr>"
proof -
  assume "\<not> isValidDamageInput s"
  then have d: "diceRegex (trim s) = None" and f: "fixedRegex (trim s) = None"
    unfolding isValidDamageInput_def Let_def by blast+
  show ?thesis
    by (simp add: parseDamageInput_def d f fallbackDamage_def)
qed

text \<open>The four strings the spec lists are rejected by the validity check.\<close>

lemma invalid_examples:
  "\<not> isValidDamageInput ''abc''" "\<not> isValidDamageInput ''''"
  "\<not> isValidDamageInput ''d8''" "\<not> isValidDamageInput ''-5''"
  by (simp_all add: parser_defs)

theorem parse_invalid_fallback_witness:
  "\<not> isValidDamageInput ''abc'' \<and>
     parseDamageInput ''abc'' =
       \<lparr>numDice = None, diceSides = None, modifier = None, fixedDamage = Some 1,
        average = 1, min' = 1, max' = 1,
        criticalAverage = Some 2, criticalMin = Some 2, criticalMax = Some 2\<rparr>"
  using parse_invalid_fallback [of "''abc''"] invalid_examples(1) by simp

text \<open>
  The record returned for a rejected string is the record of the valid string \<^verbatim>\<open>1\<close>, so
  the result alone does not tell a caller that the input was invalid.
\<close>

lemma fallback_same_as_valid_1:
  "isValidDamageInput ''1'' \<and> parseDamageInput ''abc'' = parseDamageInput ''1''"
  by (simp add: parser_defs)

subsection \<open>Strings of the dice grammar\<close>

text \<open>
  What the pieces of the patterns do on a run of digits or of white space that is followed
  by a character of another class.
\<close>

lemma digit_not_space: "isDigit c \<Longrightarrow> \<not> isWhiteSpace c"
  by (auto simp: isDigit_def isWhiteSpace_def)

lemma takeWhile_all: "list_all P a \<Longrightarrow> takeWhile P r = [] \<Longrightarrow> takeWhile P (a @ r) = a"
  by (induction a) auto

lemma dropWhile_all: "list_all P a \<Longrightarrow> takeWhile P r = [] \<Longrightarrow> dropWhile P (a @ r) = r"
  by (induction a) (auto simp: takeWhile_eq_Nil_iff dropWhile_eq_self_iff)

lemma digits_stop_spaces: "a \<noteq> [] \<Longrightarrow> list_all isDigit a \<Longrightarrow> takeWhile isWhiteSpace (a @ r) = []"
  by (cases a) (auto simp: digit_not_space)

lemma spaces_stop_digits:
  "list_all isWhiteSpace w \<Longrightarrow> \<not> isDigit c \<Longrightarrow> takeWhile isDigit (w @ c # r) = []"
  by (cases w) (auto dest: digit_not_space)

lemma spaces_end_stop_digits:
  "list_all isWhiteSpace w \<Longrightarrow> takeWhile isDigit w = []"
  by (cases w) (auto dest: digit_not_space)

lemma skipSpaces_digits:
  "list_all isWhiteSpace w \<Longrightarrow> a \<noteq> [] \<Longrightarrow> list_all isDigit a \<Longrightarrow> skipSpaces (w @ a @ r) = a @ r"
  unfolding skipSpaces_def by (rule dropWhile_all) (simp_all add: digits_stop_spaces)

lemma skipSpaces_char:
  "list_all isWhiteSpace w \<Longrightarrow> \<not> isWhiteSpace c \<Longrightarrow> skipSpaces (w @ c # r) = c # r"
  unfolding skipSpaces_def by (rule dropWhile_all) simp_all

lemma skipSpaces_all: "list_all isWhiteSpace w \<Longrightarrow> skipSpaces w = []"
  unfolding skipSpaces_def by (simp add: list_all_iff)

lemma digits1_char:
  "a \<noteq> [] \<Longrightarrow> list_all isDigit a \<Longrightarrow> list_all isWhiteSpace w \<Longrightarrow> \<not> isDigit c \<Longrightarrow>
   digits1 (a @ w @ c # r) = Some (a, w @ c # r)"
  unfolding digits1_def by (simp add: takeWhile_all dropWhile_all spaces_stop_digits)

lemma digits1_end:
  "a \<noteq> [] \<Longrightarrow> list_all isDigit a \<Longrightarrow> list_all isWhiteSpace w \<Longrightarrow>
   digits1 (a @ w) = Some (a, w)"
  unfolding digits1_def by (simp add: takeWhile_all dropWhile_all spaces_end_stop_digits)

lemma trim_core:
  assumes "list_all isWhiteSpace w0" "list_all isWhiteSpace w5"
    and "a \<noteq> []" "list_all isDigit a" "k \<noteq> []" "list_all isDigit k"
  shows "trim (w0 @ a @ m @ k @ w5) = a @ m @ k"
proof -
  have 1: "dropWhile isWhiteSpace (w0 @ a @ m @ k @ w5) = a @ m @ k @ w5"
    using assms skipSpaces_digits [of w0 a "m @ k @ w5"] by (simp add: skipSpaces_def)
  have "list_all isWhiteSpace (rev w5)" "rev k \<noteq> []" "list_all isDigit (rev k)"
    using assms by (simp_all add: list_all_iff)
  then have "dropWhile isWhiteSpace (rev w5 @ rev k @ rev m @ rev a) = rev k @ rev m @ rev a"
    using skipSpaces_digits [of "rev w5" "rev k" "rev m @ rev a"] by (simp add: skipSpaces_def)
  then show ?thesis by (simp add: trim_def 1)
qed

lemma diceRegex_signed:
  assumes a: "a \<noteq> []" "list_all isDigit a" and b: "b \<noteq> []" "list_all isDigit b"
    and k: "k \<noteq> []" "list_all isDigit k"
    and w: "list_all isWhiteSpace w1" "list_all isWhiteSpace w2" "list_all isWhiteSpace w3"
      "list_all isWhiteSpace w4"
    and d: "d = CHR ''d'' \<or> d = CHR ''D''" and sg: "sg = CHR ''+'' \<or> sg = CHR ''-''"
  shows "diceRegex (a @ w1 @ d # w2 @ b @ w3 @ sg # w4 @ k)
    = Some (a, b, Some [sg], Some k)"
    and "fixedRegex (a @ w1 @ d # w2 @ b @ w3 @ sg # w4 @ k) = None"
proof -
  have nd: "\<not> isDigit d" "\<not> isWhiteSpace d" "\<not> isDigit sg" "\<not> isWhiteSpace sg"
    using d sg by (auto simp: isDigit_def isWhiteSpace_def)
  let ?r4 = "w4 @ k" let ?r3 = "w3 @ sg # ?r4" let ?r2 = "w2 @ b @ ?r3" let ?r1 = "w1 @ d # ?r2"
  have s0: "skipSpaces (a @ ?r1) = a @ ?r1"
    using skipSpaces_digits [of "[]" a ?r1] a by simp
  have d1: "digits1 (a @ ?r1) = Some (a, ?r1)"
    using digits1_char [OF a w(1) nd(1)] by simp
  have s1: "skipSpaces ?r1 = d # ?r2"
    using skipSpaces_char [OF w(1) nd(2)] by simp
  have l: "letterD (d # ?r2) = Some ?r2" by (simp add: d)
  have s2: "skipSpaces ?r2 = b @ ?r3"
    using skipSpaces_digits [OF w(2) b] by simp
  have d2: "digits1 (b @ ?r3) = Some (b, ?r3)"
    using digits1_char [OF b w(3) nd(3)] by simp
  have s3: "skipSpaces ?r3 = sg # ?r4"
    using skipSpaces_char [OF w(3) nd(4)] by simp
  have sc: "signChar (sg # ?r4) = Some ([sg], ?r4)" by (simp add: sg)
  have s4: "skipSpaces ?r4 = k"
    using skipSpaces_digits [OF w(4) k, of "[]"] by simp
  have d3: "digits1 k = Some (k, [])"
    using digits1_end [OF k, of "[]"] by simp
  have e: "atEnd []" by (simp add: atEnd_def skipSpaces_def)
  have m: "modifierGroup (sg # ?r4) = Some ([sg], k)"
    unfolding modifierGroup_def sc by (simp add: s4 d3 e)
  show "diceRegex (a @ ?r1) = Some (a, b, Some [sg], Some k)"
    by (simp only: diceRegex_def s0 d1 s1 l s2 d2 s3 m option.case prod.case)
  have "\<not> atEnd ?r1" using s1 by (simp add: atEnd_def)
  then show "fixedRegex (a @ ?r1) = None"
    by (simp only: fixedRegex_def s0 d1 option.case prod.case if_False)
qed

text \<open>
  C8. A string of the dice grammar with a signed modifier (digits \<open>a\<close> for N, the letter
  d or D, digits \<open>b\<close> for M, a sign, digits \<open>k\<close> for K, with any white space \<open>w0\<close> to \<open>w5\<close>
  around the tokens) parses to the average N (M + 1) / 2 + K, or - K after a minus sign,
  to the minimum N * 1 + K and to the maximum N * M + K, both raised to 0 when negative.
\<close>

theorem parse_dice_closed_form:
  assumes a: "a \<noteq> []" "list_all isDigit a" and b: "b \<noteq> []" "list_all isDigit b"
    and k: "k \<noteq> []" "list_all isDigit k"
    and w: "list_all isWhiteSpace w0" "list_all isWhiteSpace w1" "list_all isWhiteSpace w2"
      "list_all isWhiteSpace w3" "list_all isWhiteSpace w4" "list_all isWhiteSpace w5"
    and d: "d = CHR ''d'' \<or> d = CHR ''D''" and sg: "sg = CHR ''+'' \<or> sg = CHR ''-''"
  shows "average (parseDamageInput (w0 @ a @ w1 @ d # w2 @ b @ w3 @ sg # w4 @ k @ w5)) =
           real_of_int (parseInt a) * (real_of_int (parseInt b) + 1) / 2
             + (if sg = CHR ''+'' then real_of_int (parseInt k) else - real_of_int (parseInt k))
       \<and> min' (parseDamageInput (w0 @ a @ w1 @ d # w2 @ b @ w3 @ sg # w4 @ k @ w5)) =
           max 0 (parseInt a * 1 + (if sg = CHR ''+'' then parseInt k else - parseInt k))
       \<and> max' (parseDamageInput (w0 @ a @ w1 @ d # w2 @ b @ w3 @ sg # w4 @ k @ w5)) =
           max 0 (parseInt a * parseInt b + (if sg = CHR ''+'' then parseInt k else - parseInt k))"
proof -
  let ?m = "w1 @ d # w2 @ b @ w3 @ sg # w4"
  have t: "trim (w0 @ a @ w1 @ d # w2 @ b @ w3 @ sg # w4 @ k @ w5)
             = a @ w1 @ d # w2 @ b @ w3 @ sg # w4 @ k"
    using trim_core [OF w(1) w(6) a k, of ?m] by simp
  note r = diceRegex_signed [OF a b k w(2) w(3) w(4) w(5) d sg]
  show ?thesis
    using sg k(1) unfolding parseDamageInput_def t Let_def r
    by (auto simp: algebra_simps)
qed

theorem parse_dice_closed_form_witness:
  "average (parseDamageInput ''2d6-10'') = - 3
   \<and> min' (parseDamageInput ''2d6-10'') = 0
   \<and> max' (parseDamageInput ''2d6-10'') = 2"
  using parse_dice_closed_form [of "''2''" "''6''" "''10''" "[]" "[]" "[]" "[]" "[]" "[]" "CHR ''d''" "CHR ''-''"]
  by (simp add: isDigit_def parseInt_def digitValue_def)

text \<open>
  The same for a dice string without a modifier: groups 3 and 4 take no part, and the
  modifier is 0.
\<close>

lemma diceRegex_plain:
  assumes a: "a \<noteq> []" "list_all isDigit a" and b: "b \<noteq> []" "list_all isDigit b"
    and w: "list_all isWhiteSpace w1" "list_all isWhiteSpace w2"
    and d: "d = CHR ''d'' \<or> d = CHR ''D''"
  shows "diceRegex (a @ w1 @ d # w2 @ b) = Some (a, b, None, None)"
    and "fixedRegex (a @ w1 @ d # w2 @ b) = None"
proof -
  have nd: "\<not> isDigit d" "\<not> isWhiteSpace d"
    using d by (auto simp: isDigit_def isWhiteSpace_def)
  let ?r2 = "w2 @ b" let ?r1 = "w1 @ d # ?r2"
  have s0: "skipSpaces (a @ ?r1) = a @ ?r1"
    using skipSpaces_digits [of "[]" a ?r1] a by simp
  have d1: "digits1 (a @ ?r1) = Some (a, ?r1)"
    using digits1_char [OF a w(1) nd(1)] by simp
  have s1: "skipSpaces ?r1 = d # ?r2"
    using skipSpaces_char [OF w(1) nd(2)] by simp
  have l: "letterD (d # ?r2) = Some ?r2" by (simp add: d)
  have s2: "skipSpaces ?r2 = b"
    using skipSpaces_digits [OF w(2) b, of "[]"] by simp
  have d2: "digits1 b = Some (b, [])"
    using digits1_end [OF b, of "[]"] by simp
  have m: "modifierGroup (skipSpaces []) = None"
    by (simp add: modifierGroup_def skipSpaces_def)
  have e: "atEnd []" by (simp add: atEnd_def skipSpaces_def)
  show "diceRegex (a @ ?r1) = Some (a, b, None, None)"
    by (simp only: diceRegex_def s0 d1 s1 l s2 d2 m e option.case prod.case if_True)
  have "\<not> atEnd ?r1" using s1 by (simp add: atEnd_def)
  then show "fixedRegex (a @ ?r1) = None"
    by (simp only: fixedRegex_def s0 d1 option.case prod.case if_False)
qed

lemma parse_dice_plain:
  assumes a: "a \<noteq> []" "list_all isDigit a" and b: "b \<noteq> []" "list_all isDigit b"
    and w: "list_all isWhiteSpace w0" "list_all isWhiteSpace w1" "list_all isWhiteSpace w2"
      "list_all isWhiteSpace w3"
    and d: "d = CHR ''d'' \<or> d = CHR ''D''"
  shows "average (parseDamageInput (w0 @ a @ w1 @ d # w2 @ b @ w3)) =
           real_of_int (parseInt a) * (real_of_int (parseInt b) + 1) / 2
       \<and> min' (parseDamageInput (w0 @ a @ w1 @ d # w2 @ b @ w3)) = max 0 (parseInt a)
       \<and> max' (parseDamageInput (w0 @ a @ w1 @ d # w2 @ b @ w3)) =
           max 0 (parseInt a * parseInt b)"
proof -
  have t: "trim (w0 @ a @ w1 @ d # w2 @ b @ w3) = a @ w1 @ d # w2 @ b"
    using trim_core [OF w(1) w(4) a b, of "w1 @ d # w2"] by simp
  note r = diceRegex_plain [OF a b w(2) w(3) d]
  show ?thesis
    unfolding parseDamageInput_def t Let_def r
    by (simp add: algebra_simps)
qed

text \<open>The spec's example of a fixed damage.\<close>

lemma parse_8:
  "parseDamageInput ''8'' =
     \<lparr>numDice = None, diceSides = None, modifier = None, fixedDamage = Some 8,
      average = 8, min' = 8, max' = 8,
      criticalAverage = Some 16, criticalMin = Some 16, criticalMax = Some 16\<rparr>"
  by (simp add: parser_defs)

subsection \<open>What a match says about the string\<close>

text \<open>
  A match of a pattern splits the string into the pieces of the pattern: white space,
  digits, the letter, the sign. With \<open>diceRegex_signed\<close> and \<open>diceRegex_plain\<close> this makes
  the two functions the matchers of the two grammars.
\<close>

lemma skipSpaces_split:
  "\<exists>w. s = w @ skipSpaces s \<and> list_all isWhiteSpace w"
proof -
  have "s = takeWhile isWhiteSpace s @ skipSpaces s"
    by (simp add: skipSpaces_def)
  moreover have "list_all isWhiteSpace (takeWhile isWhiteSpace s)"
    by (auto simp: list_all_iff dest: set_takeWhileD)
  ultimately show ?thesis by blast
qed

lemma digits1_split:
  assumes "digits1 s = Some (g, r)"
  shows "s = g @ r \<and> g \<noteq> [] \<and> list_all isDigit g"
proof -
  have g: "g = takeWhile isDigit s" "r = dropWhile isDigit s" "g \<noteq> []"
    using assms by (auto simp: digits1_def split: if_splits)
  then show ?thesis
    by (auto simp: list_all_iff dest: set_takeWhileD)
qed

lemma atEnd_spaces: "atEnd s \<Longrightarrow> list_all isWhiteSpace s"
  by (simp add: atEnd_def skipSpaces_def list_all_iff dropWhile_eq_Nil_conv)

lemma letterD_split:
  "letterD s = Some r \<Longrightarrow> \<exists>d. s = d # r \<and> (d = CHR ''d'' \<or> d = CHR ''D'')"
  by (cases s) (auto split: if_splits)

lemma signChar_split:
  "signChar s = Some (g, r) \<Longrightarrow>
     \<exists>c. s = c # r \<and> g = [c] \<and> (c = CHR ''+'' \<or> c = CHR ''-'')"
  by (cases s) (auto split: if_splits)

lemma fixedRegex_sound:
  assumes "fixedRegex s = Some g"
  shows "\<exists>w0 w1. s = w0 @ g @ w1 \<and> list_all isWhiteSpace w0 \<and> list_all isWhiteSpace w1
           \<and> g \<noteq> [] \<and> list_all isDigit g"
proof -
  obtain r where d: "digits1 (skipSpaces s) = Some (g, r)" and e: "atEnd r"
    using assms by (auto simp: fixedRegex_def split: option.splits if_splits)
  obtain w0 where w0: "s = w0 @ skipSpaces s" "list_all isWhiteSpace w0"
    using skipSpaces_split by blast
  have "skipSpaces s = g @ r" "g \<noteq> []" "list_all isDigit g"
    using digits1_split [OF d] by simp_all
  then show ?thesis
    using w0 atEnd_spaces [OF e] by metis
qed

lemma modifierGroup_sound:
  assumes "modifierGroup s = Some (g3, g4)"
  shows "\<exists>c w4 w5. s = c # w4 @ g4 @ w5 \<and> g3 = [c] \<and> (c = CHR ''+'' \<or> c = CHR ''-'')
           \<and> list_all isWhiteSpace w4 \<and> list_all isWhiteSpace w5
           \<and> g4 \<noteq> [] \<and> list_all isDigit g4"
proof -
  obtain s1 s2 where sc: "signChar s = Some (g3, s1)"
    and d: "digits1 (skipSpaces s1) = Some (g4, s2)" and e: "atEnd s2"
    using assms by (auto simp: modifierGroup_def split: option.splits if_splits)
  obtain c where c: "s = c # s1" "g3 = [c]" "c = CHR ''+'' \<or> c = CHR ''-''"
    using signChar_split [OF sc] by blast
  obtain w4 where w4: "s1 = w4 @ skipSpaces s1" "list_all isWhiteSpace w4"
    using skipSpaces_split by blast
  have "skipSpaces s1 = g4 @ s2" "g4 \<noteq> []" "list_all isDigit g4"
    using digits1_split [OF d] by simp_all
  then show ?thesis
    using c w4 atEnd_spaces [OF e] by metis
qed

lemma diceRegex_sound:
  assumes "diceRegex s = Some (g1, g2, g3, g4)"
  shows "\<exists>w0 w1 d w2 rest. s = w0 @ g1 @ w1 @ d # w2 @ g2 @ rest
           \<and> list_all isWhiteSpace w0 \<and> list_all isWhiteSpace w1 \<and> list_all isWhiteSpace w2
           \<and> g1 \<noteq> [] \<and> list_all isDigit g1 \<and> g2 \<noteq> [] \<and> list_all isDigit g2
           \<and> (d = CHR ''d'' \<or> d = CHR ''D'')
           \<and> (if g3 = None then g4 = None \<and> list_all isWhiteSpace rest
               else \<exists>w3 c w4 k w5. rest = w3 @ c # w4 @ k @ w5 \<and> g3 = Some [c] \<and> g4 = Some k
                      \<and> (c = CHR ''+'' \<or> c = CHR ''-'')
                      \<and> list_all isWhiteSpace w3 \<and> list_all isWhiteSpace w4
                      \<and> list_all isWhiteSpace w5 \<and> k \<noteq> [] \<and> list_all isDigit k)"
proof -
  obtain s1 s2 s3 where d1: "digits1 (skipSpaces s) = Some (g1, s1)"
    and l: "letterD (skipSpaces s1) = Some s2"
    and d2: "digits1 (skipSpaces s2) = Some (g2, s3)"
    and m: "(\<exists>a b. modifierGroup (skipSpaces s3) = Some (a, b) \<and> g3 = Some a \<and> g4 = Some b)
          \<or> (modifierGroup (skipSpaces s3) = None \<and> atEnd s3 \<and> g3 = None \<and> g4 = None)"
    using assms by (auto simp: diceRegex_def split: option.splits if_splits)
  obtain w0 where w0: "s = w0 @ skipSpaces s" "list_all isWhiteSpace w0"
    using skipSpaces_split by blast
  have p1: "skipSpaces s = g1 @ s1" "g1 \<noteq> []" "list_all isDigit g1"
    using digits1_split [OF d1] by simp_all
  obtain w1 where w1: "s1 = w1 @ skipSpaces s1" "list_all isWhiteSpace w1"
    using skipSpaces_split by blast
  obtain d where d: "skipSpaces s1 = d # s2" "d = CHR ''d'' \<or> d = CHR ''D''"
    using letterD_split [OF l] by blast
  obtain w2 where w2: "s2 = w2 @ skipSpaces s2" "list_all isWhiteSpace w2"
    using skipSpaces_split by blast
  have p2: "skipSpaces s2 = g2 @ s3" "g2 \<noteq> []" "list_all isDigit g2"
    using digits1_split [OF d2] by simp_all
  have s: "s = w0 @ g1 @ w1 @ d # w2 @ g2 @ s3"
    using w0(1) p1(1) w1(1) d(1) w2(1) p2(1) by metis
  have r: "if g3 = None then g4 = None \<and> list_all isWhiteSpace s3
           else \<exists>w3 c w4 k w5. s3 = w3 @ c # w4 @ k @ w5 \<and> g3 = Some [c] \<and> g4 = Some k
                      \<and> (c = CHR ''+'' \<or> c = CHR ''-'')
                      \<and> list_all isWhiteSpace w3 \<and> list_all isWhiteSpace w4
                      \<and> list_all isWhiteSpace w5 \<and> k \<noteq> [] \<and> list_all isDigit k"
    using m
  proof
    assume "\<exists>a b. modifierGroup (skipSpaces s3) = Some (a, b) \<and> g3 = Some a \<and> g4 = Some b"
    then obtain a b where ab: "modifierGroup (skipSpaces s3) = Some (a, b)"
      "g3 = Some a" "g4 = Some b" by blast
    obtain w3 where w3: "s3 = w3 @ skipSpaces s3" "list_all isWhiteSpace w3"
      using skipSpaces_split by blast
    obtain c w4 w5 where g: "skipSpaces s3 = c # w4 @ b @ w5" "a = [c]"
      "c = CHR ''+'' \<or> c = CHR ''-''" "list_all isWhiteSpace w4" "list_all isWhiteSpace w5"
      "b \<noteq> []" "list_all isDigit b"
      using modifierGroup_sound [OF ab(1)] by blast
    have "s3 = w3 @ c # w4 @ b @ w5" using w3(1) g(1) by simp
    then show ?thesis using ab(2,3) g w3(2) by auto
  next
    assume "modifierGroup (skipSpaces s3) = None \<and> atEnd s3 \<and> g3 = None \<and> g4 = None"
    then show ?thesis using atEnd_spaces by simp
  qed
  show ?thesis
    using s r w0(2) w1(2) w2(2) p1(2,3) p2(2,3) d(2) by blast
qed

section \<open>Properties of the hit probability\<close>

text \<open>
  C2. Without the natural-roll rules the hit probability is the raw value
  \<open>(21 + attackModifier - armorClass) / 20\<close> clamped into the interval from 0 to 1; with
  them it is that value clamped again into the interval from 1/20 to 19/20, hence
  between 0.05 and 0.95.
\<close>

theorem d20HitProb_clamp:
  "d20HitProb attackModifier armorClass False = clamp ((21 + attackModifier - armorClass) / 20) 0 1
   \<and> 0 \<le> d20HitProb attackModifier armorClass False
   \<and> d20HitProb attackModifier armorClass False \<le> 1
   \<and> d20HitProb attackModifier armorClass True =
         clamp (clamp ((21 + attackModifier - armorClass) / 20) 0 1) (1 / 20) (19 / 20)
   \<and> 5 / 100 \<le> d20HitProb attackModifier armorClass True
   \<and> d20HitProb attackModifier armorClass True \<le> 95 / 100"
  by (simp add: d20HitProb_def clamp_def Let_def min_def max_def)

section \<open>Properties of the analytic engine\<close>

subsection \<open>The binomial coefficient\<close>

text \<open>The loop of \<open>gcd'\<close> computes the greatest common divisor.\<close>


lemma gcd_loop_gcd: "0 \<le> a \<Longrightarrow> 0 \<le> b \<Longrightarrow> gcd_loop a b = gcd a b"
proof (induction a b rule: gcd_loop.induct)
  case (1 a b)
  show ?case
  proof (cases "b = 0")
    case True
    with 1 show ?thesis by (simp add: gcd_loop.simps)
  next
    case False
    with 1 have "0 < b" by simp
    then have "gcd_loop b (a mod b) = gcd b (a mod b)"
      using 1 False by simp
    then show ?thesis
      using False by (subst gcd_loop.simps) (simp add: gcd.commute gcd_red_int [symmetric])
  qed
qed

lemma gcd'_eq: "gcd' a b = (if gcd a b = 0 then 1 else gcd a b)"
  by (simp add: gcd'_def gcd_loop_gcd Let_def)

lemma gcd'_pos: "0 < gcd' a b"
  by (simp add: gcd'_eq)

lemma gcd'_dvd: "gcd' a b dvd a \<and> gcd' a b dvd b"
  by (simp add: gcd'_eq)

text \<open>
  After the step for \<open>i - 1\<close> the quotient of \<open>num\<close> and \<open>den\<close> is the binomial
  coefficient of \<open>n - k + i - 1\<close> over \<open>i - 1\<close>; the loop ends with that of \<open>n\<close> over \<open>k\<close>.
\<close>

lemma comb_loop_inv:
  assumes "0 \<le> k" "k \<le> n - k" "1 \<le> i" "i \<le> k + 1" "0 < den"
    and "num = den * int (nat (n - k + i - 1) choose nat (i - 1))"
  shows "case comb_loop n k i num den of
           (num', den') \<Rightarrow> 0 < den' \<and> num' = den' * int (nat n choose nat k)"
  using assms
proof (induction n k i num den rule: comb_loop.induct)
  case (1 n k i num den)
  show ?case
  proof (cases "i \<le> k")
    case False
    with "1.prems" have "i = k + 1" by simp
    with "1.prems" False show ?thesis
      by (subst comb_loop.simps) simp
  next
    case True
    define m where "m = nat (n - k + i - 1)"
    define j where "j = nat (i - 1)"
    define num1 where "num1 = num * (n - (k - i))"
    define den1 where "den1 = den * i"
    define g where "g = gcd' num1 den1"
    have g: "0 < g" "g dvd num1" "g dvd den1"
      by (simp_all add: g_def gcd'_pos gcd'_dvd)
    define A where "A = int (Suc m)"
    define B where "B = int (m choose j)"
    define C where "C = int (Suc m choose Suc j)"
    define D where "D = int (Suc j)"
    have mi: "n - (k - i) = A" "i = D"
      using "1.prems" True by (simp_all add: m_def j_def A_def D_def)
    have "Suc m * (m choose j) = (Suc m choose Suc j) * Suc j"
      by (rule Suc_times_binomial_eq)
    then have "A * B = C * D"
      unfolding A_def B_def C_def D_def by (metis of_nat_mult)
    moreover have "num1 = den * B * A" "den1 = den * D"
      using "1.prems"(6) mi by (simp_all add: num1_def den1_def B_def m_def j_def)
    ultimately have eC: "num1 = den1 * C"
      by (simp add: mult.assoc mult.commute)
    have d: "0 < den1 div g"
      using g "1.prems" True
      by (simp add: den1_def pos_imp_zdiv_pos_iff zdvd_imp_le)
    have "num1 div g = (den1 div g) * C"
      using g(3) by (simp only: eC dvd_div_mult)
    moreover have "nat (n - k + (i + 1) - 1) = Suc m" "nat (i + 1 - 1) = Suc j"
      using "1.prems" True by (simp_all add: m_def j_def nat_add_distrib)
    ultimately have e:
      "num1 div g = (den1 div g) * int (nat (n - k + (i + 1) - 1) choose nat (i + 1 - 1))"
      by (simp only: C_def)
    have "case comb_loop n k (i + 1) (num1 div g) (den1 div g) of
           (num', den') \<Rightarrow> 0 < den' \<and> num' = den' * int (nat n choose nat k)"
      using "1.prems" True
      by (intro "1.IH" [OF True num1_def den1_def g_def] d e) simp_all
    then show ?thesis
      using True by (subst comb_loop.simps) (simp add: Let_def num1_def den1_def g_def)
  qed
qed

lemma comb_binomial:
  assumes "0 \<le> k" "k \<le> n"
  shows "comb n k = real (nat n choose nat k)"
proof -
  define k1 where "k1 = min k (n - k)"
  obtain num den where c: "comb_loop n k1 1 1 1 = (num, den)"
    by (cases "comb_loop n k1 1 1 1")
  have "case comb_loop n k1 1 1 1 of
           (num', den') \<Rightarrow> 0 < den' \<and> num' = den' * int (nat n choose nat k1)"
    using assms by (intro comb_loop_inv) (auto simp: k1_def min_def)
  then have nd: "0 < den" "num = den * int (nat n choose nat k1)"
    by (simp_all add: c)
  have "nat n choose nat k1 = nat n choose nat k"
  proof (cases "k \<le> n - k")
    case True
    then show ?thesis by (simp add: k1_def)
  next
    case False
    then have "nat k1 = nat n - nat k" using assms by (simp add: k1_def nat_diff_distrib)
    moreover have "nat k \<le> nat n" using assms by simp
    ultimately show ?thesis by (simp add: binomial_symmetric [symmetric])
  qed
  then have "real_of_int num / real_of_int den = real (nat n choose nat k)"
    using nd by simp
  then show ?thesis
    using assms by (simp add: comb_def k1_def [symmetric] c)
qed

subsection \<open>The distribution\<close>

lemma negBinomPMF_binomial:
  assumes "1 \<le> r" "r \<le> n"
  shows "negBinomPMF n r p =
           real (nat (n - 1) choose nat (r - 1)) * p ^ nat r * (1 - p) ^ nat (n - r)"
  using assms by (simp add: negBinomPMF_def comb_binomial power_int_def)

text \<open>Every point the loop emits is a point \<open>(m, negBinomPMF m r p)\<close> with \<open>r \<le> m\<close>.\<close>

lemma pmf_loop_points:
  assumes "list_all Q acc" "r \<le> n"
    and "\<And>m. r \<le> m \<Longrightarrow> Q \<lparr>attacks = m, prob = negBinomPMF m r p\<rparr>"
  shows "list_all Q (pmf_loop r p n tail acc)"
  using assms
proof (induction r p n tail acc rule: pmf_loop.induct)
  case (1 r p n tail acc)
  show ?case
  proof (cases "tail > maxTailProb \<and> n - r < 1000")
    case True
    have "Q \<lparr>attacks = n, prob = negBinomPMF n r p\<rparr>"
      using "1.prems"(2,3) by blast
    then have "list_all Q (acc @ [\<lparr>attacks = n, prob = negBinomPMF n r p\<rparr>])"
      using "1.prems"(1) by simp
    then have "list_all Q (pmf_loop r p (n + 1) (tail - negBinomPMF n r p)
                 (acc @ [\<lparr>attacks = n, prob = negBinomPMF n r p\<rparr>]))"
      using "1.prems"(2,3) by (intro "1.IH" [OF True refl]) simp_all
    then show ?thesis
      using True by (subst pmf_loop.simps) (simp add: Let_def)
  next
    case False
    then show ?thesis
      using "1.prems"(1) by (subst pmf_loop.simps) auto
  qed
qed

text \<open>The loop emits at least the point of \<open>n = hitsNeeded\<close>.\<close>

lemma pmf_loop_first:
  "pmf_loop r p r 1 [] \<noteq> []"
proof -
  have *: "pmf_loop r p n tail acc \<noteq> []" if "acc \<noteq> []" for n tail acc
    using that
  proof (induction r p n tail acc rule: pmf_loop.induct)
    case (1 r p n tail acc)
    then show ?case by (subst pmf_loop.simps) (simp add: Let_def)
  qed
  show ?thesis
    by (subst pmf_loop.simps) (simp add: Let_def maxTailProb_def *)
qed

text \<open>
  The law in exact arithmetic. For a positive health and a positive fixed damage the
  model of the analytic engine returns a result. With \<open>r\<close> the ceiling of
  \<open>health / damage\<close> and \<open>p\<close> the hit probability, every point of its PMF has an attack
  count \<open>n\<close> of at least \<open>r\<close> and the probability
  \<open>C(n - 1, r - 1) * p ^ r * (1 - p) ^ (n - r)\<close>, \<open>C\<close> the binomial coefficient; the mean is
  the quotient \<open>r / p\<close> and the variance the quotient \<open>r * (1 - p) / p\<^sup>2\<close>, quotients of
  numbers as the program divides them (\<open>divide_number\<close>: a positive number over 0 is
  \<open>Infinity\<close>). This is a property of the algorithm on exact numbers: the formulas of the
  code are those of the law. The program computes them on doubles and departs from the
  law where these leave their range (next subsection).
\<close>

lemma timeToKillDistribution_exact_law:
  assumes "0 < health" "0 < damage"
  shows "\<exists>res. timeToKillDistribution attackModifier armorClass damage health useCriticalMechanics
                 = Inr res
     \<and> list_all (\<lambda>pt. \<lceil>health / damage\<rceil> \<le> attacks pt
            \<and> prob pt =
                real (nat (attacks pt - 1) choose nat (\<lceil>health / damage\<rceil> - 1))
                  * d20HitProb attackModifier armorClass useCriticalMechanics
                      ^ nat \<lceil>health / damage\<rceil>
                  * (1 - d20HitProb attackModifier armorClass useCriticalMechanics)
                      ^ nat (attacks pt - \<lceil>health / damage\<rceil>))
          (pmf res)
     \<and> mean res =
          divide_number (of_int \<lceil>health / damage\<rceil>)
            (d20HitProb attackModifier armorClass useCriticalMechanics)
     \<and> variance res =
          divide_number
            (of_int \<lceil>health / damage\<rceil>
               * (1 - d20HitProb attackModifier armorClass useCriticalMechanics))
            ((d20HitProb attackModifier armorClass useCriticalMechanics)\<^sup>2)"
proof -
  define p where "p = d20HitProb attackModifier armorClass useCriticalMechanics"
  define r where "r = \<lceil>health / damage\<rceil>"
  have r: "1 \<le> r" using assms by (simp add: r_def)
  show ?thesis
  proof (cases "p = 0")
    case True
    then show ?thesis
      using assms r
      by (simp add: timeToKillDistribution_def p_def [symmetric] r_def [symmetric]
          divide_number_def)
  next
    case False
    have "list_all (\<lambda>pt. r \<le> attacks pt
            \<and> prob pt = real (nat (attacks pt - 1) choose nat (r - 1)) * p ^ nat r
                          * (1 - p) ^ nat (attacks pt - r))
          (pmf_loop r p r 1 [])"
      using r by (intro pmf_loop_points) (simp_all add: negBinomPMF_binomial)
    then show ?thesis
      using assms False
      by (simp add: timeToKillDistribution_def p_def [symmetric] r_def [symmetric]
          divide_number_def Let_def power2_eq_square)
  qed
qed

lemma timeToKillDistribution_exact_law_example:
  "(0::real) < 25 \<and> (0::real) < 8
   \<and> (\<exists>res. timeToKillDistribution 5 15 8 25 True = Inr res
        \<and> pmf res \<noteq> []
        \<and> list_all (\<lambda>pt. 4 \<le> attacks pt
              \<and> prob pt = real (nat (attacks pt - 1) choose 3) * (11 / 20) ^ 4
                            * (9 / 20) ^ nat (attacks pt - 4))
            (pmf res)
        \<and> mean res = Finite (80 / 11)
        \<and> variance res = Finite (720 / 121))"
proof -
  have c: "\<lceil>(25::real) / 8\<rceil> = 4" by simp
  have p: "d20HitProb 5 15 True = 11 / 20" by (simp add: d20HitProb_def)
  obtain res where res: "timeToKillDistribution 5 15 8 25 True = Inr res"
    and rest: "list_all (\<lambda>pt. 4 \<le> attacks pt
              \<and> prob pt = real (nat (attacks pt - 1) choose 3) * (11 / 20) ^ 4
                            * (9 / 20) ^ nat (attacks pt - 4))
            (pmf res)"
      "mean res = Finite (80 / 11)" "variance res = Finite (720 / 121)"
    using timeToKillDistribution_exact_law [of 25 8 5 15 True]
    unfolding c p by (auto simp: divide_number_def power2_eq_square)
  have "pmf res = pmf_loop 4 (11 / 20) 4 1 []"
    using res by (auto simp: timeToKillDistribution_def p c Let_def)
  then have "pmf res \<noteq> []" by (simp add: pmf_loop_first)
  with res rest show ?thesis by simp
qed

text \<open>
  C9. With a positive health and a positive damage, when the hit probability is exactly 0
  the analytic engine raises no error: it returns the result whose mean, variance,
  standard deviation and hits needed are \<open>Infinity\<close> and whose PMF is empty. The hit
  probability is 0 only when the critical rules are disabled.
\<close>

theorem timeToKillDistribution_never_hits:
  assumes "0 < health" "0 < damage"
    and "d20HitProb attackModifier armorClass useCriticalMechanics = 0"
  shows "timeToKillDistribution attackModifier armorClass damage health useCriticalMechanics
           = Inr \<lparr>hitProbability = 0, hitsNeeded = Infinity, pmf = [],
                  mean = Infinity, variance = Infinity, stdev = Infinity,
                  normalApprox = [], roundsDistribution = []\<rparr>
         \<and> \<not> useCriticalMechanics"
proof -
  have "d20HitProb attackModifier armorClass True \<noteq> 0"
    by (simp add: d20HitProb_def Let_def max_def min_def)
  with assms(3) have "\<not> useCriticalMechanics" by auto
  then show ?thesis
    using assms by (simp add: timeToKillDistribution_def)
qed

theorem timeToKillDistribution_never_hits_witness:
  "(0::real) < 25 \<and> (0::real) < 8 \<and> d20HitProb 0 30 False = 0
   \<and> timeToKillDistribution 0 30 8 25 False
        = Inr \<lparr>hitProbability = 0, hitsNeeded = Infinity, pmf = [],
               mean = Infinity, variance = Infinity, stdev = Infinity,
               normalApprox = [], roundsDistribution = []\<rparr>"
proof -
  have p: "d20HitProb 0 30 False = 0" by (simp add: d20HitProb_def)
  show ?thesis
    using timeToKillDistribution_never_hits [of 25 8 0 30 False] p by simp
qed

subsection \<open>Where the doubles of the program leave their range\<close>






section \<open>Properties of the Monte Carlo engine\<close>

subsection \<open>The distribution of the counts\<close>

text \<open>The two loops over the counts, as a sum and as a list of points.\<close>

lemma totalCount_foldl:
  "foldl (\<lambda>totalCount i. if (c i :: nat) > 0 then totalCount + c i else totalCount) a xs
     = a + sum_list (map c xs)"
  by (induction xs arbitrary: a) auto

lemma totalCountOf_sum:
  "totalCountOf attackCounts = (\<Sum>i\<leftarrow>[1..<Suc maxAttacks]. attackCounts ! i)"
  unfolding totalCountOf_def totalCount_foldl by simp

lemma pmf_foldl:
  "fst (foldl (\<lambda>(pmf, mean, variance) i.
              if (c i :: nat) > 0 then
                (let prob = real (c i) / real t
                 in (pmf @ [\<lparr>attacks = int i, prob = prob\<rparr>],
                     mean + real i * prob,
                     variance + real i * real i * prob))
              else (pmf, mean, variance))
       (acc, m, v) xs)
   = acc @ map (\<lambda>i. \<lparr>attacks = int i, prob = real (c i) / real t\<rparr>) (filter (\<lambda>i. c i > 0) xs)"
  by (induction xs arbitrary: acc m v) (auto simp: Let_def)

lemma pmfOf_points:
  "fst (pmfOf attackCounts totalCount) =
     map (\<lambda>i. \<lparr>attacks = int i, prob = real (attackCounts ! i) / real totalCount\<rparr>)
       (filter (\<lambda>i. attackCounts ! i > 0) [1..<Suc maxAttacks])"
  unfolding pmfOf_def by (simp only: pmf_foldl) simp

lemma sum_filter_pos:
  "(\<Sum>i\<leftarrow>filter (\<lambda>i. (c i :: nat) > 0) xs. real (c i) / t) = real (sum_list (map c xs)) / t"
  by (induction xs) (auto simp: add_divide_distrib)

text \<open>The probabilities of the points add up to 1, unless every count is 0.\<close>

lemma pmfOf_sum:
  "sum_list (map prob (fst (pmfOf attackCounts (totalCountOf attackCounts))))
     = (if totalCountOf attackCounts = 0 then 0 else 1)"
proof -
  have "sum_list (map prob (fst (pmfOf attackCounts (totalCountOf attackCounts))))
      = (\<Sum>i\<leftarrow>filter (\<lambda>i. attackCounts ! i > 0) [1..<Suc maxAttacks].
            real (attackCounts ! i) / real (totalCountOf attackCounts))"
    by (simp add: pmfOf_points comp_def)
  also have "\<dots> = real (totalCountOf attackCounts) / real (totalCountOf attackCounts)"
    by (simp only: sum_filter_pos totalCountOf_sum)
  finally show ?thesis by simp
qed

lemma pmfOf_empty:
  "totalCountOf attackCounts = 0 \<Longrightarrow> fst (pmfOf attackCounts t) = []"
  by (auto simp: pmfOf_points totalCountOf_sum filter_empty_conv)

lemma pmfOf_attacks:
  "map attacks (fst (pmfOf attackCounts t))
     = map int (filter (\<lambda>i. attackCounts ! i > 0) [1..<Suc maxAttacks])"
  by (simp add: pmfOf_points comp_def)

text \<open>The attack counts of the points ascend and are at least 1.\<close>

lemma pmfOf_sorted:
  "sorted (map attacks (fst (pmfOf attackCounts t)))
   \<and> list_all (\<lambda>a. 1 \<le> a) (map attacks (fst (pmfOf attackCounts t)))"
proof -
  let ?is = "filter (\<lambda>i. attackCounts ! i > 0) [1..<Suc maxAttacks]"
  have "sorted ?is"
    by (intro sorted_wrt_filter sorted_upt)
  then have "sorted (map int ?is)"
    by (simp only: sorted_map of_nat_le_iff)
  moreover have "\<forall>i \<in> set ?is. 1 \<le> i"
    by (simp only: set_filter set_upt) simp
  then have "list_all (\<lambda>a. 1 \<le> a) (map int ?is)"
    by (simp add: list_all_iff)
  ultimately show ?thesis
    by (simp only: pmfOf_attacks)
qed

subsection \<open>The median and the percentiles\<close>

text \<open>Each marker of the loop is the marker of \<open>markerStep\<close> with its threshold.\<close>


lemma percentile_markers:
  "foldl percentileStep (c, m50, m25, m75, m90, m95) ps =
     (c + sum_list (map prob ps),
      snd (foldl (markerStep 0.5) (c, m50) ps),
      snd (foldl (markerStep 0.25) (c, m25) ps),
      snd (foldl (markerStep 0.75) (c, m75) ps),
      snd (foldl (markerStep 0.90) (c, m90) ps),
      snd (foldl (markerStep 0.95) (c, m95) ps))"
proof (induction ps arbitrary: c m50 m25 m75 m90 m95)
  case Nil
  show ?case by simp
next
  case (Cons p ps)
  have m: "markerStep t (c, m) p =
      (c + prob p, if m = 1 \<and> c + prob p \<ge> t then attacks p else m)" for t m
    by (simp only: markerStep_def prod.case)
  have "percentileStep (c, m50, m25, m75, m90, m95) p =
      (c + prob p, snd (markerStep 0.5 (c, m50) p), snd (markerStep 0.25 (c, m25) p),
       snd (markerStep 0.75 (c, m75) p), snd (markerStep 0.90 (c, m90) p),
       snd (markerStep 0.95 (c, m95) p))"
    by (simp only: percentileStep_def Let_def prod.case m snd_conv)
  then show ?case
    by (simp only: foldl_Cons Cons.IH m snd_conv list.map sum_list.Cons add.assoc)
qed

lemma markerStep_fst:
  "fst (foldl (markerStep t) (c, m) ps) = c + sum_list (map prob ps)"
  by (induction ps arbitrary: c m) (simp_all add: markerStep_def add.assoc)

text \<open>
  The invariant holds after a step on a point whose attack count is at least 1 and not
  below the last one, and so after the loop on an ascending list of points.
\<close>

lemma markerInv_step:
  assumes "markerInv t2 l s1 s2" "t1 \<le> t2" "l \<le> attacks p" "1 \<le> attacks p"
  shows "markerInv t2 (attacks p) (markerStep t1 s1 p) (markerStep t2 s2 p)"
proof -
  obtain c m1 where s1: "s1 = (c, m1)" by (cases s1)
  obtain c' m2 where s2: "s2 = (c', m2)" by (cases s2)
  show ?thesis
    using assms unfolding s1 s2 markerInv_def markerStep_def
    by (auto simp: max_def split: if_splits)
qed

lemma markerInv_foldl:
  assumes "markerInv t2 l s1 s2" "t1 \<le> t2" "sorted (l # map attacks ps)"
    "list_all (\<lambda>a. 1 \<le> a) (map attacks ps)"
  shows "\<exists>l'. markerInv t2 l' (foldl (markerStep t1) s1 ps) (foldl (markerStep t2) s2 ps)"
  using assms
proof (induction ps arbitrary: l s1 s2)
  case Nil
  then show ?case by auto
next
  case (Cons p ps)
  have "markerInv t2 (attacks p) (markerStep t1 s1 p) (markerStep t2 s2 p)"
    using Cons.prems by (intro markerInv_step [of t2 l]) simp_all
  moreover have "sorted (attacks p # map attacks ps)"
    "list_all (\<lambda>a. 1 \<le> a) (map attacks ps)"
    using Cons.prems by simp_all
  ultimately show ?case
    using Cons.IH [of "attacks p"] Cons.prems(2) by simp
qed

text \<open>
  On an ascending list of points whose probabilities reach the larger threshold, the
  marker of the smaller threshold is not above the marker of the larger one.
\<close>

lemma markers_monotone:
  assumes "t1 \<le> t2" "sorted (map attacks ps)" "list_all (\<lambda>a. 1 \<le> a) (map attacks ps)"
    and "ps = [] \<or> t2 \<le> sum_list (map prob ps)"
  shows "snd (foldl (markerStep t1) (0, 1) ps) \<le> snd (foldl (markerStep t2) (0, 1) ps)"
proof -
  have "markerInv t2 0 (0, 1) (0, 1)" by (simp add: markerInv_def)
  moreover have "sorted (0 # map attacks ps)"
    using assms(2,3) by (auto simp: list_all_iff)
  ultimately obtain l where
    "markerInv t2 l (foldl (markerStep t1) (0, 1) ps) (foldl (markerStep t2) (0, 1) ps)"
    using markerInv_foldl [of t2 0 "(0, 1)" "(0, 1)" t1 ps] assms(1,3) by blast
  then have "snd (foldl (markerStep t1) (0, 1) ps) \<le> snd (foldl (markerStep t2) (0, 1) ps)
      \<or> (snd (foldl (markerStep t2) (0, 1) ps) = 1 \<and> fst (foldl (markerStep t2) (0, 1) ps) < t2)"
    by (simp add: markerInv_def)
  then show ?thesis
  proof
    assume "snd (foldl (markerStep t2) (0, 1) ps) = 1 \<and> fst (foldl (markerStep t2) (0, 1) ps) < t2"
    then have "sum_list (map prob ps) < t2" by (simp add: markerStep_fst)
    with assms(4) have "ps = []" by auto
    then show ?thesis by simp
  qed
qed


text \<open>
  A marker that is not 1 is final. On points none of which has the attack count 1, the
  marker of the loop is the first attack count at which the cumulative probability
  reaches the threshold, and 1 when it is never reached.
\<close>

lemma marker_final:
  "m \<noteq> 1 \<Longrightarrow> snd (foldl (markerStep t) (c, m) ps) = m"
  by (induction ps arbitrary: c) (simp_all add: markerStep_def)

lemma marker_firstReaching:
  assumes "list_all (\<lambda>a. a \<noteq> 1) (map attacks ps)"
  shows "snd (foldl (markerStep t) (c, 1) ps) = firstReaching t c ps"
  using assms
proof (induction ps arbitrary: c)
  case Nil
  show ?case by simp
next
  case (Cons p ps)
  show ?case
  proof (cases "c + prob p \<ge> t")
    case True
    then have "markerStep t (c, 1) p = (c + prob p, attacks p)"
      by (simp add: markerStep_def)
    moreover have "attacks p \<noteq> 1" using Cons.prems by simp
    ultimately show ?thesis using True by (simp add: marker_final)
  next
    case False
    then have "markerStep t (c, 1) p = (c + prob p, 1)"
      by (simp add: markerStep_def)
    then show ?thesis using False Cons by simp
  qed
qed

subsection \<open>The fields of the result\<close>

text \<open>
  With a positive health the engine returns a result; its PMF is the list of points of the
  counts of the run, and its markers are those of \<open>markerStep\<close> on that PMF.
\<close>

lemma engine_fields:
  assumes "0 < health"
  shows "\<exists>res. timeToKillWithCriticals rnd attackModifier armorClass damage health
                  useCriticalMechanics = Inr res
     \<and> pmf res =
          fst (pmfOf
                 (fst (simulations rnd attackModifier armorClass damage health
                         useCriticalMechanics numSimulations (replicate (maxAttacks + 1) 0) 0))
                 (totalCountOf
                    (fst (simulations rnd attackModifier armorClass damage health
                            useCriticalMechanics numSimulations (replicate (maxAttacks + 1) 0) 0))))
     \<and> median res = snd (foldl (markerStep 0.5) (0, 1) (pmf res))
     \<and> p25 (percentiles res) = snd (foldl (markerStep 0.25) (0, 1) (pmf res))
     \<and> p75 (percentiles res) = snd (foldl (markerStep 0.75) (0, 1) (pmf res))
     \<and> p90 (percentiles res) = snd (foldl (markerStep 0.90) (0, 1) (pmf res))
     \<and> p95 (percentiles res) = snd (foldl (markerStep 0.95) (0, 1) (pmf res))"
  using assms
  by (simp add: timeToKillWithCriticals_def Let_def split_beta percentilesOf_def
      percentile_markers)

text \<open>
  C6. In every result the Monte Carlo engine returns (it returns one whenever the health is
  positive, whatever the random sequence), the markers are in the order
  p25, median, p75, p90, p95, each not above the next.
\<close>

theorem percentiles_monotone:
  assumes "0 < health"
  shows "\<exists>res. timeToKillWithCriticals rnd attackModifier armorClass damage health
                  useCriticalMechanics = Inr res
     \<and> p25 (percentiles res) \<le> median res
     \<and> median res \<le> p75 (percentiles res)
     \<and> p75 (percentiles res) \<le> p90 (percentiles res)
     \<and> p90 (percentiles res) \<le> p95 (percentiles res)"
proof -
  define counts where "counts =
    fst (simulations rnd attackModifier armorClass damage health
           useCriticalMechanics numSimulations (replicate (maxAttacks + 1) 0) 0)"
  obtain res where res:
    "timeToKillWithCriticals rnd attackModifier armorClass damage health
       useCriticalMechanics = Inr res"
    "pmf res = fst (pmfOf counts (totalCountOf counts))"
    "median res = snd (foldl (markerStep 0.5) (0, 1) (pmf res))"
    "p25 (percentiles res) = snd (foldl (markerStep 0.25) (0, 1) (pmf res))"
    "p75 (percentiles res) = snd (foldl (markerStep 0.75) (0, 1) (pmf res))"
    "p90 (percentiles res) = snd (foldl (markerStep 0.90) (0, 1) (pmf res))"
    "p95 (percentiles res) = snd (foldl (markerStep 0.95) (0, 1) (pmf res))"
    using engine_fields [OF assms] unfolding counts_def by blast
  have s: "sorted (map attacks (pmf res))" "list_all (\<lambda>a. 1 \<le> a) (map attacks (pmf res))"
    using pmfOf_sorted [of counts "totalCountOf counts"] by (simp_all only: res(2))
  have "pmf res = [] \<or> sum_list (map prob (pmf res)) = 1"
    using pmfOf_sum [of counts] pmfOf_empty [of counts "totalCountOf counts"]
    by (cases "totalCountOf counts = 0") (simp_all only: res(2) if_True if_False simp_thms)
  then have t: "pmf res = [] \<or> t \<le> sum_list (map prob (pmf res))" if "t \<le> 1" for t
    using that by auto
  have m: "snd (foldl (markerStep t1) (0, 1) (pmf res))
         \<le> snd (foldl (markerStep t2) (0, 1) (pmf res))" if "t1 \<le> t2" "t2 \<le> 1" for t1 t2
    using that by (intro markers_monotone s t)
  have "p25 (percentiles res) \<le> median res" unfolding res(3,4) by (rule m) simp_all
  moreover have "median res \<le> p75 (percentiles res)" unfolding res(3,5) by (rule m) simp_all
  moreover have "p75 (percentiles res) \<le> p90 (percentiles res)"
    unfolding res(5,6) by (rule m) simp_all
  moreover have "p90 (percentiles res) \<le> p95 (percentiles res)"
    unfolding res(6,7) by (rule m) simp_all
  ultimately show ?thesis using res(1) by simp
qed

theorem percentiles_monotone_witness:
  "(0::real) < 1
   \<and> (\<exists>res. timeToKillWithCriticals (\<lambda>k. 99 / 100) 0 10 (parseDamageInput ''100'') 1 True
               = Inr res
        \<and> p25 (percentiles res) \<le> median res
        \<and> median res \<le> p75 (percentiles res)
        \<and> p75 (percentiles res) \<le> p90 (percentiles res)
        \<and> p90 (percentiles res) \<le> p95 (percentiles res))"
  using percentiles_monotone [of 1 "\<lambda>k. 99 / 100" 0 10 "parseDamageInput ''100''" True]
  by simp

subsection \<open>The trials and the counts\<close>

text \<open>
  A trial started with \<open>a\<close> attacks ends with at least \<open>a\<close> attacks, with more when the
  health is positive and the cap is not reached, and with at most \<open>maxAttacks\<close>; when it ends
  below the cap the target is dead.
\<close>

lemma trial_loop_attacks:
  assumes "trial_loop rnd am ac d c h a k = (h', a', k')"
  shows "a \<le> a' \<and> (0 < h \<and> a < maxAttacks \<longrightarrow> a < a')
       \<and> (a \<le> maxAttacks \<longrightarrow> a' \<le> maxAttacks) \<and> (a' < maxAttacks \<longrightarrow> h' \<le> 0)"
  using assms
proof (induction rnd am ac d c h a k rule: trial_loop.induct)
  case (1 rnd am ac d c h a k)
  show ?case
  proof (cases "h > 0 \<and> a < maxAttacks")
    case True
    obtain h1 k1 where at: "attack rnd am ac d c h k = (h1, k1)"
      by (cases "attack rnd am ac d c h k")
    have "trial_loop rnd am ac d c h1 (a + 1) k1 = (h', a', k')"
      using "1.prems" True by (subst (asm) trial_loop.simps) (simp add: at)
    then have "a + 1 \<le> a' \<and> (a + 1 \<le> maxAttacks \<longrightarrow> a' \<le> maxAttacks)
        \<and> (a' < maxAttacks \<longrightarrow> h' \<le> 0)"
      using "1.IH" [OF True at [symmetric] refl] by simp
    then show ?thesis using True by auto
  next
    case False
    then have "h' = h \<and> a' = a"
      using "1.prems" by (subst (asm) trial_loop.simps) auto
    then show ?thesis using False by auto
  qed
qed

lemma trialAttacks_range:
  assumes "0 < health"
  shows "\<forall>a \<in> set (trialAttacks rnd am ac d health c n k). 1 \<le> a \<and> a \<le> maxAttacks"
proof (induction n arbitrary: k)
  case 0
  show ?case by simp
next
  case (Suc n)
  obtain h' a' k' where t: "trial_loop rnd am ac d c health 0 k = (h', a', k')"
    by (cases "trial_loop rnd am ac d c health 0 k")
  have "1 \<le> a' \<and> a' \<le> maxAttacks"
    using trial_loop_attacks [OF t] assms by (auto simp: maxAttacks_def)
  then show ?case using Suc by (simp add: t)
qed

lemma trialAttacks_length: "length (trialAttacks rnd am ac d health c n k) = n"
  by (induction n arbitrary: k) (simp_all add: split_beta)

text \<open>
  The counts after a run: slot \<open>i\<close> holds the number of retained trials with \<open>i\<close> attacks, and
  \<^verbatim>\<open>totalCount\<close> is the number of retained trials.
\<close>

lemma simulations_foldl:
  "fst (simulations rnd am ac d health c n cs k) =
     foldl (\<lambda>cs a. if a < maxAttacks then cs[a := cs ! a + 1] else cs) cs
       (trialAttacks rnd am ac d health c n k)"
  by (induction n arbitrary: cs k) (simp_all add: split_beta Let_def)

lemma counting_length:
  "length (foldl (\<lambda>cs a. if a < m then cs[a := cs ! a + 1] else cs) cs as) = length cs"
  by (induction as arbitrary: cs) simp_all

lemma counting_nth:
  "i < length cs \<Longrightarrow>
   foldl (\<lambda>cs a. if a < m then cs[a := cs ! a + (1::nat)] else cs) cs as ! i
     = cs ! i + count_list (filter (\<lambda>a. a < m) as) i"
  by (induction as arbitrary: cs) (auto simp: nth_list_update)

lemma retained_counts:
  assumes "i \<le> maxAttacks"
  shows "fst (simulations rnd am ac d health c numSimulations (replicate (maxAttacks + 1) 0) 0) ! i
           = count_list (retainedTrials rnd am ac d health c) i"
proof -
  have l: "i < length (replicate (maxAttacks + 1) (0::nat))"
    using assms by simp
  have z: "replicate (maxAttacks + 1) (0::nat) ! i = 0"
    using assms by (intro nth_replicate) simp
  show ?thesis
    by (simp only: simulations_foldl counting_nth [OF l] z retainedTrials_def add_0)
qed

lemma retained_total:
  assumes "0 < health"
  shows "totalCountOf
           (fst (simulations rnd am ac d health c numSimulations (replicate (maxAttacks + 1) 0) 0))
         = length (retainedTrials rnd am ac d health c)"
proof -
  let ?r = "retainedTrials rnd am ac d health c"
  let ?cs = "fst (simulations rnd am ac d health c numSimulations (replicate (maxAttacks + 1) 0) 0)"
  have "totalCountOf ?cs = (\<Sum>i\<leftarrow>[1..<Suc maxAttacks]. ?cs ! i)"
    by (rule totalCountOf_sum)
  also have "\<dots> = (\<Sum>i\<leftarrow>[1..<Suc maxAttacks]. count_list ?r i)"
    by (intro arg_cong [of _ _ sum_list] map_cong refl retained_counts) auto
  also have "\<dots> = sum (count_list ?r) (set [1..<Suc maxAttacks])"
    by (rule sum_list_distinct_conv_sum_set) (rule distinct_upt)
  also have "\<dots> = length ?r"
  proof (rule sum_count_set)
    have "1 \<le> a \<and> a < Suc maxAttacks" if "a \<in> set ?r" for a
      using trialAttacks_range [OF assms, of rnd am ac d c numSimulations 0] that
      by (auto simp: retainedTrials_def)
    then show "set ?r \<subseteq> set [1..<Suc maxAttacks]"
      by (auto simp only: set_upt atLeastLessThan_iff)
    show "finite (set [1..<Suc maxAttacks])" by (rule finite_set)
  qed
  finally show ?thesis .
qed

text \<open>
  The PMF of the result: one point for each attack count \<open>i\<close> with a positive frequency
  among the retained trials, its probability that frequency over the retained count.
\<close>

lemma engine_pmf:
  assumes "0 < health"
  shows "\<exists>res. timeToKillWithCriticals rnd attackModifier armorClass damage health
                  useCriticalMechanics = Inr res
     \<and> pmf res =
          map (\<lambda>i. \<lparr>attacks = int i,
                     prob = real (count_list (retainedTrials rnd attackModifier armorClass damage
                                   health useCriticalMechanics) i)
                          / real (length (retainedTrials rnd attackModifier armorClass damage
                                   health useCriticalMechanics))\<rparr>)
            (filter (\<lambda>i. 0 < count_list (retainedTrials rnd attackModifier armorClass damage
                                   health useCriticalMechanics) i)
               [1..<Suc maxAttacks])"
proof -
  let ?r = "retainedTrials rnd attackModifier armorClass damage health useCriticalMechanics"
  define counts where "counts =
    fst (simulations rnd attackModifier armorClass damage health
           useCriticalMechanics numSimulations (replicate (maxAttacks + 1) 0) 0)"
  obtain res where res:
    "timeToKillWithCriticals rnd attackModifier armorClass damage health
       useCriticalMechanics = Inr res"
    "pmf res = fst (pmfOf counts (totalCountOf counts))"
    using engine_fields [OF assms] unfolding counts_def by blast
  have total: "totalCountOf counts = length ?r"
    unfolding counts_def by (rule retained_total [OF assms])
  have nth: "counts ! i = count_list ?r i" if "i \<in> set [1..<Suc maxAttacks]" for i
    unfolding counts_def using that by (intro retained_counts) auto
  have "pmf res =
      map (\<lambda>i. \<lparr>attacks = int i, prob = real (counts ! i) / real (length ?r)\<rparr>)
        (filter (\<lambda>i. counts ! i > 0) [1..<Suc maxAttacks])"
    by (simp only: res(2) pmfOf_points total)
  also have "\<dots> =
      map (\<lambda>i. \<lparr>attacks = int i, prob = real (count_list ?r i) / real (length ?r)\<rparr>)
        (filter (\<lambda>i. 0 < count_list ?r i) [1..<Suc maxAttacks])"
  proof -
    have f: "filter (\<lambda>i. counts ! i > 0) [1..<Suc maxAttacks]
           = filter (\<lambda>i. 0 < count_list ?r i) [1..<Suc maxAttacks]"
      by (rule filter_cong [OF refl]) (simp only: nth)
    show ?thesis
      unfolding f by (rule map_cong [OF refl]) (simp only: nth set_filter mem_Collect_eq)
  qed
  finally show ?thesis using res(1) by blast
qed

text \<open>
  C4. With a positive health the engine returns a result whose PMF has, for each attack
  count that a retained trial ended with, the frequency of that count among the retained
  trials divided by the number of retained trials (not by \<open>numSimulations\<close>). Its
  probabilities therefore add up to 1 whenever a trial was retained; when none was, the
  PMF is empty.
\<close>

theorem pmf_normalised_over_retained:
  assumes "0 < health"
  shows "\<exists>res. timeToKillWithCriticals rnd attackModifier armorClass damage health
                  useCriticalMechanics = Inr res
     \<and> pmf res =
          map (\<lambda>i. \<lparr>attacks = int i,
                     prob = real (count_list (retainedTrials rnd attackModifier armorClass damage
                                   health useCriticalMechanics) i)
                          / real (length (retainedTrials rnd attackModifier armorClass damage
                                   health useCriticalMechanics))\<rparr>)
            (filter (\<lambda>i. 0 < count_list (retainedTrials rnd attackModifier armorClass damage
                                   health useCriticalMechanics) i)
               [1..<Suc maxAttacks])
     \<and> (if retainedTrials rnd attackModifier armorClass damage health useCriticalMechanics = []
         then pmf res = []
         else sum_list (map prob (pmf res)) = 1)"
proof -
  let ?r = "retainedTrials rnd attackModifier armorClass damage health useCriticalMechanics"
  define counts where "counts =
    fst (simulations rnd attackModifier armorClass damage health
           useCriticalMechanics numSimulations (replicate (maxAttacks + 1) 0) 0)"
  obtain res where res:
    "timeToKillWithCriticals rnd attackModifier armorClass damage health
       useCriticalMechanics = Inr res"
    and points: "pmf res =
      map (\<lambda>i. \<lparr>attacks = int i, prob = real (count_list ?r i) / real (length ?r)\<rparr>)
        (filter (\<lambda>i. 0 < count_list ?r i) [1..<Suc maxAttacks])"
    using engine_pmf [OF assms] by blast
  have counts: "pmf res = fst (pmfOf counts (totalCountOf counts))"
    using engine_fields [OF assms, of rnd attackModifier armorClass damage useCriticalMechanics]
      res unfolding counts_def by auto
  have total: "totalCountOf counts = length ?r"
    unfolding counts_def by (rule retained_total [OF assms])
  have "if ?r = [] then pmf res = [] else sum_list (map prob (pmf res)) = 1"
  proof (cases "?r = []")
    case True
    then have "totalCountOf counts = 0" by (simp add: total)
    then have "pmf res = []" unfolding counts by (rule pmfOf_empty)
    with True show ?thesis by simp
  next
    case False
    then have "totalCountOf counts \<noteq> 0" by (simp add: total)
    then have "sum_list (map prob (pmf res)) = 1"
      unfolding counts by (simp only: pmfOf_sum if_False)
    with False show ?thesis by simp
  qed
  with res points show ?thesis by blast
qed

subsection \<open>Runs on the sample sequences\<close>

text \<open>
  The target has 1 hit point and armor class 10, the attack has modifier 0 and the fixed
  damage \<^verbatim>\<open>100\<close>, critical mechanics are on. On \<open>lateHit m\<close> the first trial misses \<open>m\<close> times
  and kills with attack \<open>m + 1\<close>; every later trial kills with its first attack.
\<close>

lemma fixed100: "fixedDamage (parseDamageInput ''100'') = Some 100"
  by (simp add: parser_defs)

lemma attack_hit:
  assumes "rnd k = 99 / 100"
  shows "attack rnd 0 10 (parseDamageInput ''100'') True h k = (h - 200, Suc k)"
  unfolding attack_def assms by (simp add: rollDamage_def fixed100)

lemma attack_miss:
  assumes "rnd k = 0"
  shows "attack rnd 0 10 (parseDamageInput ''100'') True h k = (h, Suc k)"
  unfolding attack_def assms by simp

lemma trial_after:
  assumes "m \<le> k"
  shows "trial_loop (lateHit m) 0 10 (parseDamageInput ''100'') True 1 0 k = (- 199, 1, Suc k)"
proof -
  have "attack (lateHit m) 0 10 (parseDamageInput ''100'') True 1 k = (1 - 200, Suc k)"
    using assms by (intro attack_hit) (simp add: lateHit_def)
  then show ?thesis
    by (subst trial_loop.simps, simp add: maxAttacks_def, subst trial_loop.simps) simp
qed

lemma trial_first:
  assumes "j \<le> m" "m < maxAttacks"
  shows "trial_loop (lateHit m) 0 10 (parseDamageInput ''100'') True 1 j j = (- 199, Suc m, Suc m)"
  using assms
proof (induction "m - j" arbitrary: j)
  case 0
  then have j: "j = m" by simp
  have "attack (lateHit m) 0 10 (parseDamageInput ''100'') True 1 m = (1 - 200, Suc m)"
    by (intro attack_hit) (simp add: lateHit_def)
  then show ?case
    using "0.prems"(2) unfolding j
    by (subst trial_loop.simps, simp, subst trial_loop.simps) simp
next
  case (Suc d)
  then have lt: "j < m" by simp
  have "attack (lateHit m) 0 10 (parseDamageInput ''100'') True 1 j = (1, Suc j)"
    using lt by (intro attack_miss) (simp add: lateHit_def)
  moreover have "trial_loop (lateHit m) 0 10 (parseDamageInput ''100'') True 1 (Suc j) (Suc j)
      = (- 199, Suc m, Suc m)"
    using Suc lt by (intro Suc.hyps(1)) simp_all
  ultimately show ?case
    using lt Suc.prems(2) by (subst trial_loop.simps) simp
qed

lemma trialAttacks_after:
  "m \<le> k \<Longrightarrow>
   trialAttacks (lateHit m) 0 10 (parseDamageInput ''100'') 1 True n k = replicate n 1"
  by (induction n arbitrary: k) (simp_all add: trial_after)

lemma trialAttacks_lateHit:
  assumes "m < maxAttacks"
  shows "trialAttacks (lateHit m) 0 10 (parseDamageInput ''100'') 1 True (Suc n) 0
           = Suc m # replicate n 1"
  using trial_first [of 0 m] assms by (simp add: trialAttacks_after)

lemma numSimulations_Suc: "numSimulations = Suc 99999"
  by (simp add: numSimulations_def)

lemma retained_lateHit_199:
  "retainedTrials (lateHit 199) 0 10 (parseDamageInput ''100'') 1 True = replicate 99999 1"
  unfolding retainedTrials_def numSimulations_Suc
  by (subst trialAttacks_lateHit) (simp_all add: maxAttacks_def)

lemma retained_lateHit_1:
  "retainedTrials (lateHit 1) 0 10 (parseDamageInput ''100'') 1 True = 2 # replicate 99999 1"
  unfolding retainedTrials_def numSimulations_Suc
  by (subst trialAttacks_lateHit) (simp_all add: maxAttacks_def)

lemma count_list_replicate: "count_list (replicate n x) i = (if i = x then n else 0)"
  by (induction n) auto

lemma filter_upt_bounded:
  assumes "\<And>i. P i \<Longrightarrow> i < b" "a \<le> b" "b \<le> n"
  shows "filter P [a..<n] = filter P [a..<b]"
proof -
  have "[a..<n] = [a..<b] @ [b..<n]"
    using assms(2,3) upt_add_eq_append [of a b "n - b"] by simp
  moreover have "filter P [b..<n] = []"
    using assms(1) by (fastforce simp: filter_empty_conv)
  ultimately show ?thesis by simp
qed

lemma upt_1_3: "[1..<3] = [1, 2::nat]"
  by (simp add: upt_rec)

lemma filter_lateHit_199:
  "filter (\<lambda>i. 0 < count_list (replicate 99999 (1::nat)) i) [1..<Suc maxAttacks] = [1]"
proof -
  have "filter (\<lambda>i. 0 < count_list (replicate 99999 (1::nat)) i) [1..<Suc maxAttacks]
      = filter (\<lambda>i. 0 < count_list (replicate 99999 (1::nat)) i) [1..<3]"
    by (rule filter_upt_bounded) (simp_all add: count_list_replicate maxAttacks_def split: if_splits)
  then show ?thesis
    by (simp only: upt_1_3) (simp add: count_list_replicate)
qed

lemma filter_lateHit_1:
  "filter (\<lambda>i. 0 < count_list (2 # replicate 99999 (1::nat)) i) [1..<Suc maxAttacks] = [1, 2]"
proof -
  have "filter (\<lambda>i. 0 < count_list (2 # replicate 99999 (1::nat)) i) [1..<Suc maxAttacks]
      = filter (\<lambda>i. 0 < count_list (2 # replicate 99999 (1::nat)) i) [1..<3]"
    by (rule filter_upt_bounded) (simp_all add: count_list_replicate maxAttacks_def split: if_splits)
  then show ?thesis
    by (simp only: upt_1_3) (simp add: count_list_replicate)
qed

lemma pmf_lateHit_199:
  "\<exists>res. timeToKillWithCriticals (lateHit 199) 0 10 (parseDamageInput ''100'') 1 True = Inr res
     \<and> pmf res = [\<lparr>attacks = 1, prob = 1\<rparr>]"
  using engine_pmf [of 1 "lateHit 199" 0 10 "parseDamageInput ''100''" True]
  unfolding retained_lateHit_199 filter_lateHit_199
  by (auto simp: count_list_replicate)

lemma pmf_lateHit_1:
  "\<exists>res. timeToKillWithCriticals (lateHit 1) 0 10 (parseDamageInput ''100'') 1 True = Inr res
     \<and> pmf res = [\<lparr>attacks = 1, prob = 99999 / 100000\<rparr>, \<lparr>attacks = 2, prob = 1 / 100000\<rparr>]"
  using engine_pmf [of 1 "lateHit 1" 0 10 "parseDamageInput ''100''" True]
  unfolding retained_lateHit_1 filter_lateHit_1
  by (auto simp: count_list_replicate)

text \<open>
  On \<open>lateHit 199\<close> one trial is discarded: 99999 of the 100000 trials are retained, the
  one point of the PMF has the probability 99999 / 99999, and the sum is 1.
\<close>

theorem pmf_normalised_over_retained_witness:
  "(0::real) < 1
   \<and> length (retainedTrials (lateHit 199) 0 10 (parseDamageInput ''100'') 1 True) = 99999
   \<and> numSimulations = 100000
   \<and> (\<exists>res. timeToKillWithCriticals (lateHit 199) 0 10 (parseDamageInput ''100'') 1 True
               = Inr res
        \<and> pmf res = [\<lparr>attacks = 1, prob = 99999 / 99999\<rparr>]
        \<and> sum_list (map prob (pmf res)) = 1)"
  using pmf_normalised_over_retained [of 1 "lateHit 199" 0 10 "parseDamageInput ''100''" True]
  unfolding retained_lateHit_199 filter_lateHit_199
  by (auto simp: count_list_replicate numSimulations_def)

text \<open>
  C3, at a run in which a trial kills the target with attack 200. On \<open>lateHit 199\<close> the first
  trial ends with the remaining health - 199 after exactly \<open>maxAttacks = 200\<close> attacks: the
  target is dead within the cap. The test \<^verbatim>\<open>attacks < maxAttacks\<close> does not count it: the
  retained trials are the 99999 later ones, and the PMF has the single point of attack
  count 1 and no point of attack count 200.
\<close>

theorem kill_on_last_attack_discarded:
  "trial_loop (lateHit 199) 0 10 (parseDamageInput ''100'') True 1 0 0 = (- 199, 200, 200)
   \<and> maxAttacks = 200
   \<and> trialAttacks (lateHit 199) 0 10 (parseDamageInput ''100'') 1 True numSimulations 0
        = 200 # replicate 99999 1
   \<and> retainedTrials (lateHit 199) 0 10 (parseDamageInput ''100'') 1 True = replicate 99999 1
   \<and> (\<exists>res. timeToKillWithCriticals (lateHit 199) 0 10 (parseDamageInput ''100'') 1 True
               = Inr res
        \<and> pmf res = [\<lparr>attacks = 1, prob = 1\<rparr>])"
proof -
  have m: "199 < maxAttacks" by (simp add: maxAttacks_def)
  have "trial_loop (lateHit 199) 0 10 (parseDamageInput ''100'') True 1 0 0 = (- 199, 200, 200)"
    using trial_first [of 0 199] m by simp
  moreover have "trialAttacks (lateHit 199) 0 10 (parseDamageInput ''100'') 1 True numSimulations 0
        = 200 # replicate 99999 1"
    unfolding numSimulations_Suc using trialAttacks_lateHit [OF m, of 99999] by simp
  ultimately show ?thesis
    using retained_lateHit_199 pmf_lateHit_199 by (simp add: maxAttacks_def)
qed

text \<open>
  C5, at a run whose PMF reaches the thresholds at the attack count 1. On \<open>lateHit 1\<close> the
  PMF is 99999 / 100000 at 1 and 1 / 100000 at 2. The first attack count at which the
  cumulative probability reaches each of the five thresholds is 1 (\<open>firstReaching\<close>), and the
  engine returns 2 for the median and for every percentile: a marker set to 1 still
  passes the test \<^verbatim>\<open>=== 1\<close> at the next point and is set again.
\<close>

theorem markers_skip_first_point:
  "\<exists>res. timeToKillWithCriticals (lateHit 1) 0 10 (parseDamageInput ''100'') 1 True = Inr res
     \<and> pmf res = [\<lparr>attacks = 1, prob = 99999 / 100000\<rparr>, \<lparr>attacks = 2, prob = 1 / 100000\<rparr>]
     \<and> firstReaching 0.5 0 (pmf res) = 1 \<and> median res = 2
     \<and> firstReaching 0.25 0 (pmf res) = 1 \<and> p25 (percentiles res) = 2
     \<and> firstReaching 0.75 0 (pmf res) = 1 \<and> p75 (percentiles res) = 2
     \<and> firstReaching 0.90 0 (pmf res) = 1 \<and> p90 (percentiles res) = 2
     \<and> firstReaching 0.95 0 (pmf res) = 1 \<and> p95 (percentiles res) = 2"
proof -
  obtain res where res:
    "timeToKillWithCriticals (lateHit 1) 0 10 (parseDamageInput ''100'') 1 True = Inr res"
    "pmf res = [\<lparr>attacks = 1, prob = 99999 / 100000\<rparr>, \<lparr>attacks = 2, prob = 1 / 100000\<rparr>]"
    using pmf_lateHit_1 by blast
  obtain res' where res':
    "timeToKillWithCriticals (lateHit 1) 0 10 (parseDamageInput ''100'') 1 True = Inr res'"
    "median res' = snd (foldl (markerStep 0.5) (0, 1) (pmf res'))"
    "p25 (percentiles res') = snd (foldl (markerStep 0.25) (0, 1) (pmf res'))"
    "p75 (percentiles res') = snd (foldl (markerStep 0.75) (0, 1) (pmf res'))"
    "p90 (percentiles res') = snd (foldl (markerStep 0.90) (0, 1) (pmf res'))"
    "p95 (percentiles res') = snd (foldl (markerStep 0.95) (0, 1) (pmf res'))"
    using engine_fields [of 1 "lateHit 1" 0 10 "parseDamageInput ''100''" True] by auto
  have e: "res' = res" using res(1) res'(1) by simp
  have "median res = 2" "p25 (percentiles res) = 2" "p75 (percentiles res) = 2"
    "p90 (percentiles res) = 2" "p95 (percentiles res) = 2"
    using res' unfolding e res(2) by (simp_all add: markerStep_def)
  moreover have "firstReaching 0.5 0 (pmf res) = 1" "firstReaching 0.25 0 (pmf res) = 1"
    "firstReaching 0.75 0 (pmf res) = 1" "firstReaching 0.90 0 (pmf res) = 1"
    "firstReaching 0.95 0 (pmf res) = 1"
    unfolding res(2) by simp_all
  ultimately show ?thesis using res by simp
qed

end
